theory Spec2Isabelle
  imports Main "HOL-Library.AList"
begin

section \<open>Values, owners and the host\<close>

text \<open>
  JavaScript values as far as the two modules inspect them. Functions, elements and
  objects carry an identity, so that HOL equality on \<open>jsval\<close> is the strict equality
  \<^verbatim>\<open>===\<close> of the source. \<open>Bound i obj f\<close> is the function returned by the \<open>i\<close>-th call of
  \<^verbatim>\<open>run.bind(obj, f)\<close>: every call returns a function of its own. \<open>PassiveProbe\<close> is the
  options object with the \<^verbatim>\<open>passive\<close> getter that the capability test builds.
\<close>

type_synonym owner = nat

datatype jsval =
    Undefined
  | Null
  | Boolean bool
  | Num int
  | Str string
  | Fn nat
  | Bound nat owner jsval
  | Element nat
  | Window
  | Object nat
  | PassiveProbe

text \<open>\<^verbatim>\<open>!!v\<close>\<close>

fun truthy :: "jsval \<Rightarrow> bool" where
  "truthy Undefined = False"
| "truthy Null = False"
| "truthy (Boolean b) = b"
| "truthy (Num n) = (n \<noteq> 0)"
| "truthy (Str s) = (s \<noteq> [])"
| "truthy v = True"

text \<open>\<^verbatim>\<open>v instanceof Element\<close>\<close>

fun instanceof_Element :: "jsval \<Rightarrow> bool" where
  "instanceof_Element (Element e) = True"
| "instanceof_Element v = False"

text \<open>\<^verbatim>\<open>typeof v === 'string'\<close>\<close>

fun typeof_string :: "jsval \<Rightarrow> bool" where
  "typeof_string (Str s) = True"
| "typeof_string v = False"

fun string_of :: "jsval \<Rightarrow> string" where
  "string_of (Str s) = s"
| "string_of v = []"

text \<open>
  \<^verbatim>\<open>assert(message, condition)\<close> of \<^verbatim>\<open>@ember/debug\<close> throws when the condition is false;
  the exception carries the message (here without the interpolated object and name).
\<close>

datatype error = AssertionFailed string | TypeError

text \<open>
  The calls of the public interface, as a task of an owner may issue them while it runs.
  \<open>DebounceTask obj name args wait\<close> is \<^verbatim>\<open>debounceTask(obj, name, ...args, wait)\<close>, the
  documented form of the call, with the wait in milliseconds last.
\<close>

datatype cmd =
    DebounceTask owner jsval "jsval list" nat
  | CancelDebounce owner string
  | AddEventListener owner jsval jsval jsval jsval
  | RemoveEventListener owner jsval jsval jsval jsval
  | RunDisposables owner

text \<open>
  \<^verbatim>\<open>obj[name]\<close>: either not a function, or a method whose body, given its arguments,
  issues a list of calls. The members of the owners are fixed by the application.
\<close>

datatype member = NotAFunction | Method "jsval list \<Rightarrow> cmd list"

type_synonym program = "owner \<Rightarrow> string \<Rightarrow> member"

fun typeof_function :: "member \<Rightarrow> bool" where
  "typeof_function (Method body) = True"
| "typeof_function NotAFunction = False"

section \<open>The state of the two modules and of their collaborators\<close>

text \<open>
  \<open>Closure i obj name\<close> is the arrow function \<^verbatim>\<open>debouncedTask\<close> built by the \<open>i\<close>-th
  allocation of a function; it has captured \<^verbatim>\<open>obj\<close>, \<^verbatim>\<open>name\<close> and the blob
  \<^verbatim>\<open>pendingDebounces\<close> of \<^verbatim>\<open>obj\<close>.
\<close>

datatype closure = Closure nat owner string

text \<open>
  The object \<^verbatim>\<open>{ debouncedTask, cancelId }\<close> of line 96. Its \<^verbatim>\<open>debouncedTask\<close> is the value
  of the variable of line 82, which is a wrapper or, when line 90 has read it off a value
  that has no such property, \<^verbatim>\<open>undefined\<close> (\<open>None\<close>).
\<close>

record pendingDebounce =
  debouncedTask :: "closure option"
  cancelId :: nat

text \<open>
  The blob of an owner is created by \<^verbatim>\<open>new Map()\<close> (line 76) and then used as a plain
  object: lines 81, 138 and 142 read \<^verbatim>\<open>pendingDebounces[name]\<close>, line 96 assigns to it,
  lines 86 and 144 delete it. Nothing is ever put into the map itself, so that its size
  stays 0. The own properties of the blob are the entries that line 96 has stored;
  \<^verbatim>\<open>Object.keys\<close> lists them, so they are an association list. A read that finds no own
  property goes on to the prototype of the blob. That is \<^verbatim>\<open>Map.prototype\<close>, until an
  assignment to the name \<^verbatim>\<open>__proto__\<close> has made the assigned entry object the prototype.
\<close>

type_synonym blob = "(string \<times> pendingDebounce) list"

datatype prototype = Map_prototype | Entry_prototype pendingDebounce

text \<open>
  What a read of \<^verbatim>\<open>pendingDebounces[name]\<close> can give: \<^verbatim>\<open>undefined\<close>, an entry object, a
  function that a prototype provides, a number, or the object \<^verbatim>\<open>Map.prototype\<close>.
\<close>

datatype blobval = BUndefined | BEntry pendingDebounce | BFunction | BNumber nat | BObject

text \<open>
  The properties with a string name of \<^verbatim>\<open>Map.prototype\<close> and of \<^verbatim>\<open>Object.prototype\<close> whose
  value is a function (ECMAScript 2015 to 2024, with the additions for web browsers).
  Besides them \<^verbatim>\<open>Map.prototype\<close> has the accessor \<^verbatim>\<open>size\<close>, which has a getter only, and
  \<^verbatim>\<open>Object.prototype\<close> has the accessor \<^verbatim>\<open>__proto__\<close>, with a getter and a setter.
\<close>

definition Map_prototype_methods :: "string list" where
  "Map_prototype_methods =
     [''clear'', ''constructor'', ''delete'', ''entries'', ''forEach'', ''get'', ''has'',
      ''keys'', ''set'', ''values'']"

definition Object_prototype_methods :: "string list" where
  "Object_prototype_methods =
     [''constructor'', ''hasOwnProperty'', ''isPrototypeOf'', ''propertyIsEnumerable'',
      ''toLocaleString'', ''toString'', ''valueOf'', ''__defineGetter__'',
      ''__defineSetter__'', ''__lookupGetter__'', ''__lookupSetter__'']"

text \<open>
  What the prototype chain of the blob gives for a name. With \<^verbatim>\<open>Map.prototype\<close> the chain
  is \<^verbatim>\<open>Map.prototype\<close>, \<^verbatim>\<open>Object.prototype\<close>; the getter of \<^verbatim>\<open>size\<close> returns the size of
  the map, which is 0. With an entry object the chain is that object,
  \<^verbatim>\<open>Object.prototype\<close>.
\<close>

fun inherited :: "prototype \<Rightarrow> string \<Rightarrow> blobval" where
  "inherited Map_prototype name =
     (if name = ''size'' then BNumber 0
      else if name = ''__proto__'' then BObject
      else if name \<in> set Map_prototype_methods \<or> name \<in> set Object_prototype_methods
      then BFunction
      else BUndefined)"
| "inherited (Entry_prototype e) name =
     (if name = ''debouncedTask'' then
        (case debouncedTask e of None \<Rightarrow> BUndefined | Some f \<Rightarrow> BFunction)
      else if name = ''cancelId'' then BNumber (cancelId e)
      else if name = ''__proto__'' then BEntry e
      else if name \<in> set Object_prototype_methods then BFunction
      else BUndefined)"

text \<open>\<^verbatim>\<open>pendingDebounces[name]\<close>, read\<close>

definition get_property :: "blob \<Rightarrow> prototype \<Rightarrow> string \<Rightarrow> blobval" where
  "get_property own proto name =
     (case map_of own name of
        Some e \<Rightarrow> BEntry e
      | None \<Rightarrow> inherited proto name)"

text \<open>\<^verbatim>\<open>!!v\<close>, \<^verbatim>\<open>v.debouncedTask\<close> and \<^verbatim>\<open>v.cancelId\<close> for what such a read has given.\<close>

fun truthy_blobval :: "blobval \<Rightarrow> bool" where
  "truthy_blobval BUndefined = False"
| "truthy_blobval (BNumber n) = (n \<noteq> 0)"
| "truthy_blobval v = True"

fun debouncedTask_of :: "blobval \<Rightarrow> closure option" where
  "debouncedTask_of (BEntry e) = debouncedTask e"
| "debouncedTask_of v = None"

fun cancelId_of :: "blobval \<Rightarrow> nat option" where
  "cancelId_of (BEntry e) = Some (cancelId e)"
| "cancelId_of v = None"

text \<open>
  A pending invocation of the run loop. Its method is what \<^verbatim>\<open>debounce\<close> was given: a
  wrapper, or \<^verbatim>\<open>undefined\<close> (\<open>None\<close>).
\<close>

record timer =
  tm_token :: nat
  tm_target :: owner
  tm_method :: "closure option"
  tm_args :: "jsval list"
  tm_due :: nat

datatype disposable = DebouncesDisposable owner | EventListenersDisposable owner

datatype dom_call =
    DomAdd jsval jsval jsval jsval
  | DomRemove jsval jsval jsval jsval

text \<open>
  \<open>registeredDebounces\<close> and \<open>eventListeners\<close> are the two WeakMaps of the modules;
  \<open>registeredDebounces\<close> gives the own properties of the blob of an owner and
  \<open>blob_prototype\<close> the prototype of that blob.
  \<open>timers\<close>, \<open>next_timer\<close> and \<open>now\<close> are the run loop; \<open>disposables\<close> is the ledger of
  \<^verbatim>\<open>./utils/disposable\<close>; \<open>listeners_var\<close> is the variable that the teardown closure of
  \<^verbatim>\<open>getEventListenersDisposable\<close> has captured (\<open>True\<close> while it still holds the array);
  \<open>dom_calls\<close> records the calls made on event targets and \<open>invocations\<close> the calls
  \<^verbatim>\<open>obj[name](...args)\<close> made by the debounce wrappers.
\<close>

record world =
  registeredDebounces :: "owner \<Rightarrow> blob option"
  blob_prototype :: "owner \<Rightarrow> prototype"
  eventListeners :: "owner \<Rightarrow> jsval list option"
  PASSIVE_SUPPORTED :: bool
  isDestroyed :: "owner \<Rightarrow> bool"
  next_fn :: nat
  timers :: "timer list"
  next_timer :: nat
  now :: nat
  disposables :: "owner \<Rightarrow> disposable list"
  listeners_var :: "owner \<Rightarrow> bool"
  dom_calls :: "dom_call list"
  invocations :: "(owner \<times> string \<times> jsval list) list"

subsection \<open>The capability test and the initial state\<close>

text \<open>
  What \<^verbatim>\<open>window.addEventListener('test', null, options)\<close> does in the host: there is no
  \<^verbatim>\<open>window\<close> (the call throws), or the options object is not read, or its \<^verbatim>\<open>passive\<close>
  property is read.
\<close>

datatype host = NoWindow | IgnoresOptions | ReadsPassive

fun detect_PASSIVE_SUPPORTED :: "host \<Rightarrow> bool" where
  "detect_PASSIVE_SUPPORTED ReadsPassive = True"
| "detect_PASSIVE_SUPPORTED h = False"

definition probe :: dom_call where
  "probe = DomAdd Window (Str ''test'') Null PassiveProbe"

fun probe_calls :: "host \<Rightarrow> dom_call list" where
  "probe_calls NoWindow = []"
| "probe_calls h = [probe]"

text \<open>The state after both modules have been evaluated, before any call.\<close>

definition module_init :: "host \<Rightarrow> world" where
  "module_init h =
     \<lparr> registeredDebounces = (\<lambda>obj. None),
       blob_prototype = (\<lambda>obj. Map_prototype),
       eventListeners = (\<lambda>obj. None),
       PASSIVE_SUPPORTED = detect_PASSIVE_SUPPORTED h,
       isDestroyed = (\<lambda>obj. False),
       next_fn = 0,
       timers = [],
       next_timer = 0,
       now = 0,
       disposables = (\<lambda>obj. []),
       listeners_var = (\<lambda>obj. False),
       dom_calls = probe_calls h,
       invocations = [] \<rparr>"

subsection \<open>The run loop\<close>

text \<open>
  Modelled from the spec: the external timer service (\<^verbatim>\<open>debounce\<close> and \<^verbatim>\<open>cancel\<close> of
  \<^verbatim>\<open>@ember/runloop\<close>), which is not part of the sources. \<open>debounce\<close> coalesces by the
  identity of target and method: a pending invocation of the same method on the same
  target is superseded, and a fresh token is returned (the tokens are the numbers 0, 1,
  2 and so on, in the order of their issue). \<open>cancel\<close> drops the invocation
  with the given token, if it is still pending. The service invokes a method, with the
  arguments of the latest call, once the wait of that call has elapsed. The
  specification does not say what the service does with a method that is no function;
  here it keeps such an invocation like any other, and fails when the invocation fires.
\<close>

definition debounce ::
  "owner \<Rightarrow> closure option \<Rightarrow> jsval list \<Rightarrow> nat \<Rightarrow> world \<Rightarrow> nat \<times> world" where
  "debounce target method args wait w =
     (let tok = next_timer w;
          others = filter (\<lambda>t. \<not> (tm_target t = target \<and> tm_method t = method)) (timers w)
      in (tok,
          w\<lparr> timers := others @
                [\<lparr> tm_token = tok, tm_target = target, tm_method = method,
                   tm_args = args, tm_due = now w + wait \<rparr>],
             next_timer := Suc tok \<rparr>))"

text \<open>
  Modelled from the spec: \<^verbatim>\<open>cancel\<close> of the external timer service, which is not part of
  the sources. Its argument is a token or \<^verbatim>\<open>undefined\<close> (\<open>None\<close>); the specification does
  not say what \<^verbatim>\<open>cancel(undefined)\<close> does, here it cancels nothing, as in Ember.
\<close>

fun cancel :: "nat option \<Rightarrow> world \<Rightarrow> world" where
  "cancel None w = w"
| "cancel (Some tok) w = w\<lparr> timers := filter (\<lambda>t. tm_token t \<noteq> tok) (timers w) \<rparr>"

declare cancel.simps [simp del]

subsection \<open>The ledger of disposables\<close>

text \<open>
  Modelled from the spec: \<^verbatim>\<open>registerDisposable\<close> of \<^verbatim>\<open>./utils/disposable\<close>, which is not
  among the sources. It records the teardown closure for the owner.
\<close>

definition registerDisposable :: "owner \<Rightarrow> disposable \<Rightarrow> world \<Rightarrow> world" where
  "registerDisposable obj d w =
     w\<lparr> disposables := (disposables w)(obj := disposables w obj @ [d]) \<rparr>"

section \<open>debounce-task.ts\<close>

text \<open>Lines 74 to 79: the blob of the owner, created and bridged on first use.\<close>

definition getPendingDebounces :: "owner \<Rightarrow> world \<Rightarrow> blob \<times> world" where
  "getPendingDebounces obj w =
     (case registeredDebounces w obj of
        Some pendingDebounces \<Rightarrow> (pendingDebounces, w)
      | None \<Rightarrow>
          ([], registerDisposable obj (DebouncesDisposable obj)
                 (w\<lparr> registeredDebounces := (registeredDebounces w)(obj \<mapsto> []),
                     blob_prototype := (blob_prototype w)(obj := Map_prototype) \<rparr>)))"

text \<open>
  Line 96, \<^verbatim>\<open>pendingDebounces[name] = entry\<close> on the blob of \<open>obj\<close>. An own property of the
  name is overwritten. Otherwise the assignment goes by what the prototype chain has for
  the name: the setter of \<^verbatim>\<open>__proto__\<close> makes the entry the prototype of the blob; \<^verbatim>\<open>size\<close>
  of \<^verbatim>\<open>Map.prototype\<close> has no setter, and the assignment throws a \<^verbatim>\<open>TypeError\<close>, the code of
  a module being strict; in every other case (a writable property of a prototype, or no
  property) an own property is created.
\<close>

definition set_pending ::
  "owner \<Rightarrow> string \<Rightarrow> pendingDebounce \<Rightarrow> world \<Rightarrow> error option \<times> world" where
  "set_pending obj name e w =
     (case registeredDebounces w obj of
        None \<Rightarrow> (None, w)
      | Some pendingDebounces \<Rightarrow>
          if map_of pendingDebounces name = None \<and> name = ''__proto__'' then
            (None, w\<lparr> blob_prototype := (blob_prototype w)(obj := Entry_prototype e) \<rparr>)
          else if map_of pendingDebounces name = None \<and> name = ''size''
                  \<and> blob_prototype w obj = Map_prototype then
            (Some TypeError, w)
          else
            (None, w\<lparr> registeredDebounces :=
                        (registeredDebounces w)(obj \<mapsto> AList.update name e pendingDebounces) \<rparr>))"

text \<open>
  \<^verbatim>\<open>delete pendingDebounces[name]\<close> on the blob of \<open>obj\<close>: it removes an own property of the
  name and leaves the prototype alone.
\<close>

definition delete_pending :: "owner \<Rightarrow> string \<Rightarrow> world \<Rightarrow> world" where
  "delete_pending obj name w =
     (case registeredDebounces w obj of
        None \<Rightarrow> w
      | Some pendingDebounces \<Rightarrow>
          w\<lparr> registeredDebounces :=
               (registeredDebounces w)(obj \<mapsto> AList.delete name pendingDebounces) \<rparr>)"

definition debounceTask ::
  "program \<Rightarrow> owner \<Rightarrow> jsval \<Rightarrow> jsval list \<Rightarrow> nat \<Rightarrow> world \<Rightarrow> error option \<times> world" where
  "debounceTask P obj name debounceArgs wait w =
     (if \<not> typeof_string name then
        (Some (AssertionFailed ''Called `debounceTask` without a string as the first argument''), w)
      else if \<not> typeof_function (P obj (string_of name)) then
        (Some (AssertionFailed ''Called `obj.debounceTask` where the named member is not a function''), w)
      else if isDestroyed w obj then
        (Some (AssertionFailed ''Called `debounceTask` on destroyed object''), w)
      else
        (case getPendingDebounces obj w of (pendingDebounces, w1) \<Rightarrow>
           (let pendingDebounce =
                  get_property pendingDebounces (blob_prototype w1 obj) (string_of name)
            in case (if \<not> truthy_blobval pendingDebounce
                     then (Some (Closure (next_fn w1) obj (string_of name)),
                           w1\<lparr> next_fn := Suc (next_fn w1) \<rparr>)
                     else (debouncedTask_of pendingDebounce, w1)) of
                 (task, w2) \<Rightarrow>
                   (case debounce obj task debounceArgs wait w2 of
                      (tok, w3) \<Rightarrow>
                        set_pending obj (string_of name)
                          \<lparr> debouncedTask = task, cancelId = tok \<rparr> w3))))"

definition cancelDebounce :: "owner \<Rightarrow> string \<Rightarrow> world \<Rightarrow> error option \<times> world" where
  "cancelDebounce obj name w =
     (case registeredDebounces w obj of
        None \<Rightarrow> (None, w)
      | Some pendingDebounces \<Rightarrow>
          (let pendingDebounce = get_property pendingDebounces (blob_prototype w obj) name
           in if pendingDebounce = BUndefined then (None, w)
              else (None, cancel (cancelId_of pendingDebounce) (delete_pending obj name w))))"

text \<open>
  The closure returned by \<^verbatim>\<open>getDebouncesDisposable(debounces)\<close>, where \<^verbatim>\<open>debounces\<close> is the
  blob of \<open>obj\<close>. The loop runs over \<^verbatim>\<open>Object.keys(debounces)\<close>, the names of the own
  properties; destructuring \<^verbatim>\<open>undefined\<close> would throw.
\<close>

fun cancel_names ::
  "blob \<Rightarrow> prototype \<Rightarrow> string list \<Rightarrow> world \<Rightarrow> error option \<times> world" where
  "cancel_names debounces proto [] w = (None, w)"
| "cancel_names debounces proto (n # debounceNames) w =
     (if get_property debounces proto n = BUndefined then (Some TypeError, w)
      else cancel_names debounces proto debounceNames
             (cancel (cancelId_of (get_property debounces proto n)) w))"

definition getDebouncesDisposable :: "owner \<Rightarrow> world \<Rightarrow> error option \<times> world" where
  "getDebouncesDisposable obj w =
     (case registeredDebounces w obj of
        None \<Rightarrow> (None, w)
      | Some debounces \<Rightarrow>
          (let debounceNames = map fst debounces
           in if debounceNames = [] then (None, w)
              else cancel_names debounces (blob_prototype w obj) debounceNames w))"

section \<open>dom-event-listeners.js\<close>

definition LISTENER_ITEM_LENGTH :: nat where [simp]: "LISTENER_ITEM_LENGTH = 5"
definition INDEX_ELEMENT :: nat where [simp]: "INDEX_ELEMENT = 0"
definition INDEX_EVENT_NAME :: nat where [simp]: "INDEX_EVENT_NAME = 1"
definition INDEX_CALLBACK :: nat where [simp]: "INDEX_CALLBACK = 2"
definition INDEX_ORIGINAL_CALLBACK :: nat where [simp]: "INDEX_ORIGINAL_CALLBACK = 3"
definition INDEX_OPTIONS :: nat where [simp]: "INDEX_OPTIONS = 4"

text \<open>\<^verbatim>\<open>listeners[i]\<close>: reading past the end of an array gives \<^verbatim>\<open>undefined\<close>.\<close>

definition js_nth :: "jsval list \<Rightarrow> nat \<Rightarrow> jsval" where
  "js_nth xs i = (if i < length xs then xs ! i else Undefined)"

text \<open>\<^verbatim>\<open>listeners.splice(i, n)\<close>\<close>

definition splice :: "nat \<Rightarrow> nat \<Rightarrow> 'a list \<Rightarrow> 'a list" where
  "splice i n xs = take i xs @ drop (i + n) xs"

definition getEventListeners :: "owner \<Rightarrow> world \<Rightarrow> jsval list \<times> world" where
  "getEventListeners obj w =
     (case eventListeners w obj of
        Some listeners \<Rightarrow> (listeners, w)
      | None \<Rightarrow>
          ([], registerDisposable obj (EventListenersDisposable obj)
                 (w\<lparr> eventListeners := (eventListeners w)(obj \<mapsto> []),
                     listeners_var := (listeners_var w)(obj := True) \<rparr>)))"

definition addEventListener ::
  "owner \<Rightarrow> jsval \<Rightarrow> jsval \<Rightarrow> jsval \<Rightarrow> jsval \<Rightarrow> world \<Rightarrow> error option \<times> world" where
  "addEventListener obj element eventName originalCallback options w =
     (if \<not> truthy element then
        (Some (AssertionFailed ''Must provide a DOM element when using addEventListener''), w)
      else if \<not> instanceof_Element element then
        (Some (AssertionFailed
           ''Must provide an element (not a DOM selector) when using addEventListener.''), w)
      else
        (let callback = Bound (next_fn w) obj originalCallback;
             w1 = w\<lparr> next_fn := Suc (next_fn w) \<rparr>
         in case getEventListeners obj w1 of (listeners, w2) \<Rightarrow>
              (let options' = (if \<not> PASSIVE_SUPPORTED w2 then Undefined else options);
                   w3 = w2\<lparr> dom_calls := dom_calls w2 @
                              [DomAdd element eventName callback options'] \<rparr>
               in (None,
                   w3\<lparr> eventListeners := (eventListeners w3)(obj \<mapsto>
                         listeners @ [element, eventName, callback, originalCallback, options']) \<rparr>))))"

text \<open>The loop of lines 139 to 153: the index of the first matching tuple, if any.\<close>

function removeEventListener_loop ::
  "jsval list \<Rightarrow> nat \<Rightarrow> jsval \<Rightarrow> jsval \<Rightarrow> jsval \<Rightarrow> nat option" where
  "removeEventListener_loop listeners i element eventName callback =
     (if i < length listeners then
        (if js_nth listeners (i + INDEX_ELEMENT) = element \<and>
            js_nth listeners (i + INDEX_EVENT_NAME) = eventName \<and>
            js_nth listeners (i + INDEX_ORIGINAL_CALLBACK) = callback
         then Some i
         else removeEventListener_loop listeners (i + LISTENER_ITEM_LENGTH)
                element eventName callback)
      else None)"
  by pat_completeness auto
termination
  by (relation "measure (\<lambda>(listeners, i, element, eventName, callback). length listeners - i)")
     auto

declare removeEventListener_loop.simps [simp del]

definition removeEventListener ::
  "owner \<Rightarrow> jsval \<Rightarrow> jsval \<Rightarrow> jsval \<Rightarrow> jsval \<Rightarrow> world \<Rightarrow> error option \<times> world" where
  "removeEventListener obj element eventName callback options w =
     (if \<not> truthy element then
        (Some (AssertionFailed ''Must provide a DOM element when using removeEventListener''), w)
      else if \<not> instanceof_Element element then
        (Some (AssertionFailed
           ''Must provide an element (not a DOM selector) when using removeEventListener.''), w)
      else
        (case getEventListeners obj w of (listeners, w1) \<Rightarrow>
           if length listeners = 0 then (None, w1)
           else
             (let options' = (if \<not> PASSIVE_SUPPORTED w1 then Undefined else options)
              in case removeEventListener_loop listeners 0 element eventName callback of
                   None \<Rightarrow> (None, w1)
                 | Some i \<Rightarrow>
                     (let ownCallback = js_nth listeners (i + INDEX_CALLBACK);
                          w2 = w1\<lparr> dom_calls := dom_calls w1 @
                                     [DomRemove element eventName ownCallback options'] \<rparr>
                      in (None,
                          w2\<lparr> eventListeners := (eventListeners w2)(obj \<mapsto>
                                splice i LISTENER_ITEM_LENGTH listeners) \<rparr>)))))"

text \<open>The closure returned by \<^verbatim>\<open>getEventListenersDisposable(eventListeners)\<close>.\<close>

function drop_listeners :: "jsval list \<Rightarrow> nat \<Rightarrow> dom_call list" where
  "drop_listeners listeners i =
     (if i < length listeners then
        DomRemove (js_nth listeners (i + INDEX_ELEMENT))
                  (js_nth listeners (i + INDEX_EVENT_NAME))
                  (js_nth listeners (i + INDEX_CALLBACK))
                  (js_nth listeners (i + INDEX_OPTIONS))
          # drop_listeners listeners (i + LISTENER_ITEM_LENGTH)
      else [])"
  by pat_completeness auto
termination
  by (relation "measure (\<lambda>(listeners, i). length listeners - i)") auto

declare drop_listeners.simps [simp del]

definition getEventListenersDisposable :: "owner \<Rightarrow> world \<Rightarrow> error option \<times> world" where
  "getEventListenersDisposable obj w =
     (case eventListeners w obj of
        None \<Rightarrow> (None, w)
      | Some listeners \<Rightarrow>
          if listeners_var w obj then
            (None, w\<lparr> dom_calls := dom_calls w @ drop_listeners listeners 0,
                      listeners_var := (listeners_var w)(obj := False) \<rparr>)
          else (None, w))"

section \<open>Disposal, tasks and the passage of time\<close>

text \<open>
  Modelled from the spec: \<^verbatim>\<open>runDisposables\<close> of \<^verbatim>\<open>./utils/disposable\<close>, which is not
  among the sources. The teardown closures registered for the owner run once, in the
  order of their registration, and are then forgotten.
\<close>

fun run_disposable :: "disposable \<Rightarrow> world \<Rightarrow> error option \<times> world" where
  "run_disposable (DebouncesDisposable obj) w = getDebouncesDisposable obj w"
| "run_disposable (EventListenersDisposable obj) w = getEventListenersDisposable obj w"

fun run_disposable_list :: "disposable list \<Rightarrow> world \<Rightarrow> error option \<times> world" where
  "run_disposable_list [] w = (None, w)"
| "run_disposable_list (d # ds) w =
     (case run_disposable d w of
        (Some e, w') \<Rightarrow> (Some e, w')
      | (None, w') \<Rightarrow> run_disposable_list ds w')"

text \<open>
  Modelled from the spec: \<^verbatim>\<open>runDisposables(obj)\<close> of \<^verbatim>\<open>./utils/disposable\<close>.
\<close>

definition runDisposables :: "owner \<Rightarrow> world \<Rightarrow> error option \<times> world" where
  "runDisposables obj w =
     run_disposable_list (disposables w obj) (w\<lparr> disposables := (disposables w)(obj := []) \<rparr>)"

fun exec_cmd :: "program \<Rightarrow> cmd \<Rightarrow> world \<Rightarrow> error option \<times> world" where
  "exec_cmd P (DebounceTask obj name debounceArgs wait) w = debounceTask P obj name debounceArgs wait w"
| "exec_cmd P (CancelDebounce obj name) w = cancelDebounce obj name w"
| "exec_cmd P (AddEventListener obj element eventName callback options) w =
     addEventListener obj element eventName callback options w"
| "exec_cmd P (RemoveEventListener obj element eventName callback options) w =
     removeEventListener obj element eventName callback options w"
| "exec_cmd P (RunDisposables obj) w = runDisposables obj w"

text \<open>A sequence of calls stops at the first one that throws.\<close>

fun exec_cmds :: "program \<Rightarrow> cmd list \<Rightarrow> world \<Rightarrow> error option \<times> world" where
  "exec_cmds P [] w = (None, w)"
| "exec_cmds P (c # cs) w =
     (case exec_cmd P c w of
        (Some e, w') \<Rightarrow> (Some e, w')
      | (None, w') \<Rightarrow> exec_cmds P cs w')"

text \<open>
  Lines 85 to 88: the body of the arrow function \<^verbatim>\<open>debouncedTask\<close>, called with \<open>args\<close>.
  It deletes the entry of its name from the blob and then calls \<^verbatim>\<open>obj[name](...args)\<close>.
\<close>

definition invoke :: "owner \<Rightarrow> string \<Rightarrow> jsval list \<Rightarrow> world \<Rightarrow> world" where
  "invoke obj name args w = w\<lparr> invocations := invocations w @ [(obj, name, args)] \<rparr>"

fun call_debouncedTask :: "program \<Rightarrow> closure \<Rightarrow> jsval list \<Rightarrow> world \<Rightarrow> error option \<times> world" where
  "call_debouncedTask P (Closure i obj name) args w =
     (let w1 = delete_pending obj name w
      in case P obj name of
           NotAFunction \<Rightarrow> (Some TypeError, w1)
         | Method body \<Rightarrow> exec_cmds P (body args) (invoke obj name args w1))"

text \<open>
  Modelled from the spec: the external timer service fires the pending invocation with
  token \<open>tok\<close>, which it does only once its wait has elapsed; otherwise nothing happens.
  The invocation is no longer pending when its method runs. Calling a method that is
  \<^verbatim>\<open>undefined\<close> throws a \<^verbatim>\<open>TypeError\<close>.
\<close>

definition fire :: "program \<Rightarrow> nat \<Rightarrow> world \<Rightarrow> error option \<times> world" where
  "fire P tok w =
     (case find (\<lambda>t. tm_token t = tok \<and> tm_due t \<le> now w) (timers w) of
        None \<Rightarrow> (None, w)
      | Some t \<Rightarrow>
          (case tm_method t of
             None \<Rightarrow>
               (Some TypeError, w\<lparr> timers := filter (\<lambda>t. tm_token t \<noteq> tok) (timers w) \<rparr>)
           | Some method \<Rightarrow>
               call_debouncedTask P method (tm_args t)
                 (w\<lparr> timers := filter (\<lambda>t. tm_token t \<noteq> tok) (timers w) \<rparr>)))"

definition elapse :: "nat \<Rightarrow> world \<Rightarrow> world" where
  "elapse d w = w\<lparr> now := now w + d \<rparr>"

definition destroy :: "owner \<Rightarrow> world \<Rightarrow> world" where
  "destroy obj w = w\<lparr> isDestroyed := (isDestroyed w)(obj := True) \<rparr>"

text \<open>
  What can happen in a turn: the application makes a call, time passes, the run loop
  fires a pending invocation, an owner becomes destroyed.
\<close>

datatype event = Call cmd | Elapse nat | Fire nat | Destroy owner

fun step :: "program \<Rightarrow> event \<Rightarrow> world \<Rightarrow> world" where
  "step P (Call c) w = snd (exec_cmd P c w)"
| "step P (Elapse d) w = elapse d w"
| "step P (Fire tok) w = snd (fire P tok w)"
| "step P (Destroy obj) w = destroy obj w"

fun run :: "program \<Rightarrow> event list \<Rightarrow> world \<Rightarrow> world" where
  "run P [] w = w"
| "run P (e # es) w = run P es (step P e w)"

section \<open>Notions used in the statements\<close>

subsection \<open>Pending invocations and the consistency of the debounce registry\<close>

text \<open>The invocations that the run loop holds for the wrappers built for \<open>(obj, name)\<close>.\<close>

definition pending_for :: "owner \<Rightarrow> string \<Rightarrow> world \<Rightarrow> timer list" where
  "pending_for obj name w =
     filter (\<lambda>t. case tm_method t of
                    None \<Rightarrow> False
                  | Some (Closure i obj' name') \<Rightarrow> obj' = obj \<and> name' = name)
       (timers w)"

text \<open>The blob of an owner, empty when there is none, and the entry of a name in it.\<close>

definition the_blob :: "world \<Rightarrow> owner \<Rightarrow> blob" where
  "the_blob w obj = (case registeredDebounces w obj of None \<Rightarrow> [] | Some b \<Rightarrow> b)"

definition entry :: "world \<Rightarrow> owner \<Rightarrow> string \<Rightarrow> pendingDebounce option" where
  "entry w obj name = map_of (the_blob w obj) name"

text \<open>
  The names for which a prototype chain of a blob has a property, and the names for which
  none has: for these a read of the blob gives the own entry, or \<^verbatim>\<open>undefined\<close>.
\<close>

definition inherited_names :: "string list" where
  "inherited_names =
     ''size'' # ''__proto__'' # ''debouncedTask'' # ''cancelId''
       # Map_prototype_methods @ Object_prototype_methods"

definition plain :: "string \<Rightarrow> bool" where
  "plain name = (name \<notin> set inherited_names)"

text \<open>
  What a call of \<open>debounceTask\<close> for \<open>(obj, name)\<close> in \<open>w\<close> reads at line 81, the blob of
  an owner that has none yet being a new map, and what it then hands to the run loop.
\<close>

definition the_prototype :: "world \<Rightarrow> owner \<Rightarrow> prototype" where
  "the_prototype w obj =
     (case registeredDebounces w obj of None \<Rightarrow> Map_prototype | Some b \<Rightarrow> blob_prototype w obj)"

definition the_property :: "world \<Rightarrow> owner \<Rightarrow> string \<Rightarrow> blobval" where
  "the_property w obj name = get_property (the_blob w obj) (the_prototype w obj) name"

definition the_task :: "world \<Rightarrow> owner \<Rightarrow> string \<Rightarrow> closure option" where
  "the_task w obj name =
     (if truthy_blobval (the_property w obj name) then debouncedTask_of (the_property w obj name)
      else Some (Closure (next_fn w) obj name))"

text \<open>
  A pending invocation of a wrapper is tracked when the entry of its wrapper's name, in
  the blob of its wrapper's owner, holds this wrapper and this token. In the states that
  can be reached this is so for every wrapper of a plain name, the wrapper of an entry is
  one built for the owner and the name of the entry (only an entry of a name that is not
  plain can be without a wrapper), and an entry object that has become the prototype of a
  blob holds no wrapper.
\<close>

definition built_for :: "nat \<Rightarrow> owner \<Rightarrow> string \<Rightarrow> closure option \<Rightarrow> bool" where
  "built_for n obj name task =
     (case task of
        None \<Rightarrow> \<not> plain name
      | Some (Closure i obj' name') \<Rightarrow> i < n \<and> obj' = obj \<and> name' = name)"

definition tracked :: "world \<Rightarrow> timer \<Rightarrow> bool" where
  "tracked w t =
     (case tm_method t of
        None \<Rightarrow> True
      | Some (Closure i obj name) \<Rightarrow>
          i < next_fn w \<and>
          (plain name \<longrightarrow>
             tm_target t = obj \<and>
             entry w obj name = Some \<lparr> debouncedTask = tm_method t, cancelId = tm_token t \<rparr>))"

definition wf_debounce :: "world \<Rightarrow> bool" where
  "wf_debounce w =
     (distinct (map tm_token (timers w)) \<and>
      (\<forall>t \<in> set (timers w). tm_token t < next_timer w \<and> tracked w t) \<and>
      (\<forall>obj name p. entry w obj name = Some p \<longrightarrow>
            built_for (next_fn w) obj name (debouncedTask p)) \<and>
      (\<forall>obj e. blob_prototype w obj = Entry_prototype e \<longrightarrow> debouncedTask e = None) \<and>
      (\<forall>obj. entry w obj ''__proto__'' = None))"

text \<open>
  The five elements that start at index \<open>i\<close> of a subscription list match a removal
  request: the test of lines 141 to 145.
\<close>

definition tuple_matches :: "jsval list \<Rightarrow> nat \<Rightarrow> jsval \<Rightarrow> jsval \<Rightarrow> jsval \<Rightarrow> bool" where
  "tuple_matches listeners i element eventName callback =
     (js_nth listeners (i + INDEX_ELEMENT) = element \<and>
      js_nth listeners (i + INDEX_EVENT_NAME) = eventName \<and>
      js_nth listeners (i + INDEX_ORIGINAL_CALLBACK) = callback)"

definition wf_listeners :: "world \<Rightarrow> bool" where
  "wf_listeners w =
     (\<forall>obj listeners. eventListeners w obj = Some listeners \<longrightarrow>
          length listeners mod LISTENER_ITEM_LENGTH = 0)"

subsection \<open>A burst of debounced calls\<close>

text \<open>
  A call \<^verbatim>\<open>debounceTask(obj, name, ...call_args, call_wait)\<close>, after which \<open>call_gap\<close>
  milliseconds pass until the next call of the burst.
\<close>

record call =
  call_args :: "jsval list"
  call_wait :: nat
  call_gap :: nat

text \<open>The run loop fires what it holds for \<open>(obj, name)\<close>, as far as it is due.\<close>

definition fire_due :: "program \<Rightarrow> owner \<Rightarrow> string \<Rightarrow> world \<Rightarrow> world" where
  "fire_due P obj name w =
     fold (\<lambda>t w'. snd (fire P (tm_token t) w')) (pending_for obj name w) w"

fun burst :: "program \<Rightarrow> owner \<Rightarrow> string \<Rightarrow> call list \<Rightarrow> world \<Rightarrow> world" where
  "burst P obj name [] w = w"
| "burst P obj name (c # cs) w =
     burst P obj name cs
       (fire_due P obj name
          (elapse (call_gap c)
             (snd (debounceTask P obj (Str name) (call_args c) (call_wait c) w))))"

subsection \<open>The calls made in a run\<close>

text \<open>
  Every call of the public interface made in a run, by the application or by a task,
  with its outcome.
\<close>

fun exec_cmds_log :: "program \<Rightarrow> cmd list \<Rightarrow> world \<Rightarrow> (cmd \<times> error option) list" where
  "exec_cmds_log P [] w = []"
| "exec_cmds_log P (c # cs) w =
     (case exec_cmd P c w of
        (Some e, w') \<Rightarrow> [(c, Some e)]
      | (None, w') \<Rightarrow> (c, None) # exec_cmds_log P cs w')"

fun call_debouncedTask_log ::
  "program \<Rightarrow> closure \<Rightarrow> jsval list \<Rightarrow> world \<Rightarrow> (cmd \<times> error option) list" where
  "call_debouncedTask_log P (Closure i obj name) args w =
     (case P obj name of
        NotAFunction \<Rightarrow> []
      | Method body \<Rightarrow>
          exec_cmds_log P (body args) (invoke obj name args (delete_pending obj name w)))"

definition fire_log :: "program \<Rightarrow> nat \<Rightarrow> world \<Rightarrow> (cmd \<times> error option) list" where
  "fire_log P tok w =
     (case find (\<lambda>t. tm_token t = tok \<and> tm_due t \<le> now w) (timers w) of
        None \<Rightarrow> []
      | Some t \<Rightarrow>
          (case tm_method t of
             None \<Rightarrow> []
           | Some method \<Rightarrow>
               call_debouncedTask_log P method (tm_args t)
                 (w\<lparr> timers := filter (\<lambda>t. tm_token t \<noteq> tok) (timers w) \<rparr>)))"

fun step_log :: "program \<Rightarrow> event \<Rightarrow> world \<Rightarrow> (cmd \<times> error option) list" where
  "step_log P (Call c) w = exec_cmds_log P [c] w"
| "step_log P (Fire tok) w = fire_log P tok w"
| "step_log P e w = []"

fun run_log :: "program \<Rightarrow> event list \<Rightarrow> world \<Rightarrow> (cmd \<times> error option) list" where
  "run_log P [] w = []"
| "run_log P (e # es) w = step_log P e w @ run_log P es (step P e w)"

text \<open>
  A registration call for the owner has been made and has passed its assertions: for the
  debounces a call of \<open>debounceTask\<close>, for the subscriptions a call of \<open>addEventListener\<close>
  or of \<open>removeEventListener\<close>. A call of \<open>debounceTask\<close> that has passed its assertions
  can still throw, at the assignment of line 96; the two others cannot.
\<close>

fun passed :: "error option \<Rightarrow> bool" where
  "passed (Some (AssertionFailed message)) = False"
| "passed outcome = True"

definition registers_debounce :: "owner \<Rightarrow> (cmd \<times> error option) list \<Rightarrow> bool" where
  "registers_debounce obj log =
     (\<exists>name a d outcome. (DebounceTask obj name a d, outcome) \<in> set log \<and> passed outcome)"

definition registers_listeners :: "owner \<Rightarrow> (cmd \<times> error option) list \<Rightarrow> bool" where
  "registers_listeners obj log =
     (\<exists>el ev cb op. (AddEventListener obj el ev cb op, None) \<in> set log
                  \<or> (RemoveEventListener obj el ev cb op, None) \<in> set log)"

subsection \<open>Subscriptions as tuples\<close>

text \<open>
  The subscription list as the specification describes it: a sequence of 5-tuples, of
  which removal drops the first one that matches target, event name and original
  callback.
\<close>

record subscription =
  sub_target :: jsval
  sub_eventName :: jsval
  sub_dispatchCallback :: jsval
  sub_originalCallback :: jsval
  sub_options :: jsval

definition tuple_of :: "subscription \<Rightarrow> jsval list" where
  "tuple_of s =
     [sub_target s, sub_eventName s, sub_dispatchCallback s, sub_originalCallback s, sub_options s]"

definition flatten :: "subscription list \<Rightarrow> jsval list" where
  "flatten subs = concat (map tuple_of subs)"

definition matches :: "jsval \<Rightarrow> jsval \<Rightarrow> jsval \<Rightarrow> subscription \<Rightarrow> bool" where
  "matches element eventName callback s =
     (sub_target s = element \<and> sub_eventName s = eventName \<and> sub_originalCallback s = callback)"

fun unsubscribe_first ::
  "jsval \<Rightarrow> jsval \<Rightarrow> jsval \<Rightarrow> subscription list \<Rightarrow> subscription option \<times> subscription list" where
  "unsubscribe_first element eventName callback [] = (None, [])"
| "unsubscribe_first element eventName callback (s # subs) =
     (if matches element eventName callback s then (Some s, subs)
      else case unsubscribe_first element eventName callback subs of
             (found, rest) \<Rightarrow> (found, s # rest))"

text \<open>The subscription list of an owner, empty when there is none.\<close>

definition the_listeners :: "world \<Rightarrow> owner \<Rightarrow> jsval list" where
  "the_listeners w obj = (case eventListeners w obj of None \<Rightarrow> [] | Some l \<Rightarrow> l)"

text \<open>How often the capability test has been made on the event source.\<close>

definition probes :: "world \<Rightarrow> nat" where
  "probes w = length (filter (\<lambda>c. c = probe) (dom_calls w))"

section \<open>A small application, for the concrete instances\<close>

text \<open>
  Every owner has the tasks \<open>save\<close> and \<open>toString\<close>, which make no call, and the tasks
  \<open>again\<close> and \<open>size\<close>, which debounce themselves once more with the arguments they were
  given.
\<close>

definition app :: program where
  "app obj name =
     (if name = ''save'' \<or> name = ''toString'' then Method (\<lambda>args. [])
      else if name = ''again'' \<or> name = ''size''
      then Method (\<lambda>args. [DebounceTask obj (Str name) args 50])
      else NotAFunction)"

section \<open>Preconditions\<close>

text \<open>
  C9. A call that violates a precondition is refused at once, and nothing is registered
  or removed: \<open>debounceTask\<close> fails and leaves the state as it was when the name is not a
  string, when the named member of the owner is not a function, or when the owner is
  destroyed; \<open>addEventListener\<close> and \<open>removeEventListener\<close> fail and leave the state as it was
  when the element is missing or is not an \<open>Element\<close>.
\<close>

theorem preconditions_signaled:
  "(\<not> typeof_string name \<or> \<not> typeof_function (P obj (string_of name)) \<or> isDestroyed w obj
      \<longrightarrow> fst (debounceTask P obj name debounceArgs wait w) \<noteq> None
        \<and> snd (debounceTask P obj name debounceArgs wait w) = w)
   \<and> (\<not> truthy element \<or> \<not> instanceof_Element element
      \<longrightarrow> fst (addEventListener obj element eventName callback options w) \<noteq> None
        \<and> snd (addEventListener obj element eventName callback options w) = w
        \<and> fst (removeEventListener obj element eventName callback options w) \<noteq> None
        \<and> snd (removeEventListener obj element eventName callback options w) = w)"
  by (simp add: debounceTask_def addEventListener_def removeEventListener_def)

theorem preconditions_signaled_witness:
  "(\<not> typeof_function (app 0 (string_of (Str ''load'')))
      \<and> fst (debounceTask app 0 (Str ''load'') [] 100 (module_init ReadsPassive)) \<noteq> None
      \<and> snd (debounceTask app 0 (Str ''load'') [] 100 (module_init ReadsPassive))
          = module_init ReadsPassive)
   \<and> (\<not> instanceof_Element (Str ''.some-item'')
      \<and> fst (addEventListener 0 (Str ''.some-item'') (Str ''click'') (Fn 1) Undefined
                (module_init ReadsPassive)) \<noteq> None
      \<and> snd (addEventListener 0 (Str ''.some-item'') (Str ''click'') (Fn 1) Undefined
                (module_init ReadsPassive)) = module_init ReadsPassive
      \<and> fst (removeEventListener 0 (Str ''.some-item'') (Str ''click'') (Fn 1) Undefined
                (module_init ReadsPassive)) \<noteq> None
      \<and> snd (removeEventListener 0 (Str ''.some-item'') (Str ''click'') (Fn 1) Undefined
                (module_init ReadsPassive)) = module_init ReadsPassive)"
  using preconditions_signaled [where name = "Str ''load''" and P = app and obj = 0
      and w = "module_init ReadsPassive" and debounceArgs = "[]" and wait = 100
      and element = "Str ''.some-item''" and eventName = "Str ''click''"
      and callback = "Fn 1" and options = Undefined]
  by (simp add: app_def)

section \<open>The debounce blob\<close>

subsection \<open>Reading, writing and deleting a property\<close>

lemma plain_inherited: "plain name \<Longrightarrow> inherited proto name = BUndefined"
  by (cases proto) (auto simp: plain_def inherited_names_def)

lemma get_property_own:
  "map_of b name = Some e \<Longrightarrow> get_property b proto name = BEntry e"
  by (simp add: get_property_def)

lemma get_property_plain:
  "plain name \<Longrightarrow> get_property b proto name
     = (case map_of b name of None \<Rightarrow> BUndefined | Some e \<Rightarrow> BEntry e)"
  by (simp add: get_property_def plain_inherited split: option.splits)

lemma entry_delete_pending:
  "entry (delete_pending obj name w) obj' name' =
     (if obj' = obj \<and> name' = name then None else entry w obj' name')"
  by (auto simp: entry_def the_blob_def delete_pending_def delete_conv' split: option.splits)

lemma entry_frame:
  "registeredDebounces w' = registeredDebounces w \<Longrightarrow> entry w' = entry w"
  by (simp add: entry_def the_blob_def fun_eq_iff)

lemma delete_pending_frame [simp]:
  "timers (delete_pending obj name w) = timers w"
  "next_timer (delete_pending obj name w) = next_timer w"
  "next_fn (delete_pending obj name w) = next_fn w"
  "now (delete_pending obj name w) = now w"
  "invocations (delete_pending obj name w) = invocations w"
  "isDestroyed (delete_pending obj name w) = isDestroyed w"
  "eventListeners (delete_pending obj name w) = eventListeners w"
  "dom_calls (delete_pending obj name w) = dom_calls w"
  "PASSIVE_SUPPORTED (delete_pending obj name w) = PASSIVE_SUPPORTED w"
  "blob_prototype (delete_pending obj name w) = blob_prototype w"
  by (simp_all add: delete_pending_def split: option.splits)

lemma cancel_frame [simp]:
  "timers (cancel (Some tok) w) = filter (\<lambda>t. tm_token t \<noteq> tok) (timers w)"
  "registeredDebounces (cancel c w) = registeredDebounces w"
  "next_timer (cancel c w) = next_timer w"
  "next_fn (cancel c w) = next_fn w"
  "now (cancel c w) = now w"
  "invocations (cancel c w) = invocations w"
  "isDestroyed (cancel c w) = isDestroyed w"
  "eventListeners (cancel c w) = eventListeners w"
  "dom_calls (cancel c w) = dom_calls w"
  "PASSIVE_SUPPORTED (cancel c w) = PASSIVE_SUPPORTED w"
  "blob_prototype (cancel c w) = blob_prototype w"
  by (cases c; simp add: cancel.simps)+

lemma cancel_None [simp]: "cancel None w = w"
  by (simp add: cancel.simps)

lemma entry_cancel [simp]: "entry (cancel c w) = entry w"
  by (rule entry_frame) simp

lemma set_pending_frame:
  "timers (snd (set_pending obj name e w)) = timers w"
  "next_timer (snd (set_pending obj name e w)) = next_timer w"
  "next_fn (snd (set_pending obj name e w)) = next_fn w"
  "now (snd (set_pending obj name e w)) = now w"
  "invocations (snd (set_pending obj name e w)) = invocations w"
  "isDestroyed (snd (set_pending obj name e w)) = isDestroyed w"
  "eventListeners (snd (set_pending obj name e w)) = eventListeners w"
  "dom_calls (snd (set_pending obj name e w)) = dom_calls w"
  "PASSIVE_SUPPORTED (snd (set_pending obj name e w)) = PASSIVE_SUPPORTED w"
  "listeners_var (snd (set_pending obj name e w)) = listeners_var w"
  "disposables (snd (set_pending obj name e w)) = disposables w"
  "(registeredDebounces (snd (set_pending obj name e w)) obj' \<noteq> None)
     = (registeredDebounces w obj' \<noteq> None)"
  by (simp_all add: set_pending_def split: option.splits)

lemma set_pending_passed: "passed (fst (set_pending obj name e w))"
  by (simp add: set_pending_def split: option.splits)

lemma set_pending_own:
  assumes "registeredDebounces w obj = Some b" and "map_of b name \<noteq> None \<or> plain name"
  shows "set_pending obj name e w =
     (None, w\<lparr> registeredDebounces := (registeredDebounces w)(obj \<mapsto> AList.update name e b) \<rparr>)"
  using assms by (auto simp: set_pending_def plain_def inherited_names_def)

subsection \<open>What a call of \<open>debounceTask\<close> does\<close>

lemma the_property_plain:
  "plain name \<Longrightarrow> the_property w obj name
     = (case entry w obj name of None \<Rightarrow> BUndefined | Some e \<Rightarrow> BEntry e)"
  by (simp add: the_property_def get_property_plain entry_def)

lemma the_property_own:
  "entry w obj name = Some e \<Longrightarrow> the_property w obj name = BEntry e"
  by (simp add: the_property_def get_property_def entry_def)

lemma the_task_plain:
  "plain name \<Longrightarrow> the_task w obj name
     = (case entry w obj name of None \<Rightarrow> Some (Closure (next_fn w) obj name)
        | Some e \<Rightarrow> debouncedTask e)"
  by (simp add: the_task_def the_property_plain split: option.splits)

lemma the_task_own:
  "entry w obj name = Some e \<Longrightarrow> the_task w obj name = debouncedTask e"
  by (simp add: the_task_def the_property_own)

lemma debounceTask_failure:
  assumes "\<not> (typeof_string name \<and> typeof_function (P obj (string_of name)) \<and> \<not> isDestroyed w obj)"
  shows "snd (debounceTask P obj name a d w) = w" and "\<not> passed (fst (debounceTask P obj name a d w))"
  using assms by (auto simp: debounceTask_def)

lemma debounceTask_unfold:
  fixes a :: "jsval list" and d :: nat
  assumes "typeof_function (P obj name)" and "\<not> isDestroyed w obj"
  shows "debounceTask P obj (Str name) a d w =
     set_pending obj name \<lparr> debouncedTask = the_task w obj name, cancelId = next_timer w \<rparr>
       ((snd (getPendingDebounces obj w))
          \<lparr> next_fn := (if truthy_blobval (the_property w obj name) then next_fn w
                        else Suc (next_fn w)),
            timers :=
              filter (\<lambda>t. \<not> (tm_target t = obj \<and> tm_method t = the_task w obj name)) (timers w)
              @ [\<lparr> tm_token = next_timer w, tm_target = obj, tm_method = the_task w obj name,
                   tm_args = a, tm_due = now w + d \<rparr>],
            next_timer := Suc (next_timer w) \<rparr>)"
  using assms
  by (simp add: debounceTask_def getPendingDebounces_def debounce_def registerDisposable_def
        the_task_def the_property_def the_prototype_def the_blob_def Let_def
        split: option.splits)

lemma getPendingDebounces_frame:
  "registeredDebounces (snd (getPendingDebounces obj w))
     = (registeredDebounces w)(obj \<mapsto> the_blob w obj)"
  "blob_prototype (snd (getPendingDebounces obj w))
     = (blob_prototype w)(obj := the_prototype w obj)"
  "timers (snd (getPendingDebounces obj w)) = timers w"
  "next_timer (snd (getPendingDebounces obj w)) = next_timer w"
  "next_fn (snd (getPendingDebounces obj w)) = next_fn w"
  "now (snd (getPendingDebounces obj w)) = now w"
  "invocations (snd (getPendingDebounces obj w)) = invocations w"
  "isDestroyed (snd (getPendingDebounces obj w)) = isDestroyed w"
  "eventListeners (snd (getPendingDebounces obj w)) = eventListeners w"
  "dom_calls (snd (getPendingDebounces obj w)) = dom_calls w"
  "PASSIVE_SUPPORTED (snd (getPendingDebounces obj w)) = PASSIVE_SUPPORTED w"
  "listeners_var (snd (getPendingDebounces obj w)) = listeners_var w"
  by (auto simp: getPendingDebounces_def registerDisposable_def the_blob_def the_prototype_def
        split: option.splits)

lemma debounceTask_passed:
  assumes "typeof_string name" and "typeof_function (P obj (string_of name))"
    and "\<not> isDestroyed w obj"
  shows "passed (fst (debounceTask P obj name a d w))"
    and "(registeredDebounces (snd (debounceTask P obj name a d w)) obj' \<noteq> None)
           = (registeredDebounces w obj' \<noteq> None \<or> obj' = obj)"
proof -
  from assms(1) obtain n where n: "name = Str n" by (cases name) auto
  with assms have ok: "typeof_function (P obj n)" "\<not> isDestroyed w obj" by auto
  note u = debounceTask_unfold [where P = P and a = a and d = d, OF ok]
  show "passed (fst (debounceTask P obj name a d w))"
    unfolding n u by (rule set_pending_passed)
  show "(registeredDebounces (snd (debounceTask P obj name a d w)) obj' \<noteq> None)
           = (registeredDebounces w obj' \<noteq> None \<or> obj' = obj)"
    unfolding n u set_pending_frame by (auto simp: getPendingDebounces_frame)
qed

subsection \<open>What the calls leave alone\<close>

lemma debounceTask_frame:
  "invocations (snd (debounceTask P obj name a d w)) = invocations w"
  "isDestroyed (snd (debounceTask P obj name a d w)) = isDestroyed w"
  "eventListeners (snd (debounceTask P obj name a d w)) = eventListeners w"
  "PASSIVE_SUPPORTED (snd (debounceTask P obj name a d w)) = PASSIVE_SUPPORTED w"
  "dom_calls (snd (debounceTask P obj name a d w)) = dom_calls w"
  "now (snd (debounceTask P obj name a d w)) = now w"
proof -
  consider (fail) "\<not> (typeof_string name \<and> typeof_function (P obj (string_of name))
        \<and> \<not> isDestroyed w obj)"
    | (ok) n where "name = Str n" "typeof_function (P obj n)" "\<not> isDestroyed w obj"
    by (cases name) auto
  then show "invocations (snd (debounceTask P obj name a d w)) = invocations w"
    "isDestroyed (snd (debounceTask P obj name a d w)) = isDestroyed w"
    "eventListeners (snd (debounceTask P obj name a d w)) = eventListeners w"
    "PASSIVE_SUPPORTED (snd (debounceTask P obj name a d w)) = PASSIVE_SUPPORTED w"
    "dom_calls (snd (debounceTask P obj name a d w)) = dom_calls w"
    "now (snd (debounceTask P obj name a d w)) = now w"
    by (cases; simp add: debounceTask_failure debounceTask_unfold set_pending_frame
          getPendingDebounces_frame)+
qed

lemma cancelDebounce_frame:
  "fst (cancelDebounce obj name w) = None"
  "invocations (snd (cancelDebounce obj name w)) = invocations w"
  "isDestroyed (snd (cancelDebounce obj name w)) = isDestroyed w"
  "eventListeners (snd (cancelDebounce obj name w)) = eventListeners w"
  "PASSIVE_SUPPORTED (snd (cancelDebounce obj name w)) = PASSIVE_SUPPORTED w"
  "dom_calls (snd (cancelDebounce obj name w)) = dom_calls w"
  "next_timer (snd (cancelDebounce obj name w)) = next_timer w"
  "next_fn (snd (cancelDebounce obj name w)) = next_fn w"
  "blob_prototype (snd (cancelDebounce obj name w)) = blob_prototype w"
  by (simp_all add: cancelDebounce_def Let_def split: option.splits)

lemma cancel_names_frame:
  "invocations (snd (cancel_names b proto ns w)) = invocations w"
  "isDestroyed (snd (cancel_names b proto ns w)) = isDestroyed w"
  "registeredDebounces (snd (cancel_names b proto ns w)) = registeredDebounces w"
  "eventListeners (snd (cancel_names b proto ns w)) = eventListeners w"
  "PASSIVE_SUPPORTED (snd (cancel_names b proto ns w)) = PASSIVE_SUPPORTED w"
  "dom_calls (snd (cancel_names b proto ns w)) = dom_calls w"
  "next_timer (snd (cancel_names b proto ns w)) = next_timer w"
  "next_fn (snd (cancel_names b proto ns w)) = next_fn w"
  "blob_prototype (snd (cancel_names b proto ns w)) = blob_prototype w"
  by (induction ns arbitrary: w) auto

lemma getDebouncesDisposable_frame:
  "invocations (snd (getDebouncesDisposable obj w)) = invocations w"
  "isDestroyed (snd (getDebouncesDisposable obj w)) = isDestroyed w"
  "registeredDebounces (snd (getDebouncesDisposable obj w)) = registeredDebounces w"
  "eventListeners (snd (getDebouncesDisposable obj w)) = eventListeners w"
  "PASSIVE_SUPPORTED (snd (getDebouncesDisposable obj w)) = PASSIVE_SUPPORTED w"
  "dom_calls (snd (getDebouncesDisposable obj w)) = dom_calls w"
  "next_timer (snd (getDebouncesDisposable obj w)) = next_timer w"
  "next_fn (snd (getDebouncesDisposable obj w)) = next_fn w"
  "blob_prototype (snd (getDebouncesDisposable obj w)) = blob_prototype w"
  by (simp_all add: getDebouncesDisposable_def Let_def cancel_names_frame split: option.splits)


lemma getEventListenersDisposable_frame:
  "timers (snd (getEventListenersDisposable obj w)) = timers w"
  "next_timer (snd (getEventListenersDisposable obj w)) = next_timer w"
  "registeredDebounces (snd (getEventListenersDisposable obj w)) = registeredDebounces w"
  "next_fn (snd (getEventListenersDisposable obj w)) = next_fn w"
  "eventListeners (snd (getEventListenersDisposable obj w)) = eventListeners w"
  "invocations (snd (getEventListenersDisposable obj w)) = invocations w"
  "isDestroyed (snd (getEventListenersDisposable obj w)) = isDestroyed w"
  "PASSIVE_SUPPORTED (snd (getEventListenersDisposable obj w)) = PASSIVE_SUPPORTED w"
  "blob_prototype (snd (getEventListenersDisposable obj w)) = blob_prototype w"
  by (simp_all add: getEventListenersDisposable_def split: option.splits)

lemma addEventListener_frame:
  "timers (snd (addEventListener obj element eventName cb options w)) = timers w"
  "next_timer (snd (addEventListener obj element eventName cb options w)) = next_timer w"
  "registeredDebounces (snd (addEventListener obj element eventName cb options w))
     = registeredDebounces w"
  "next_fn w \<le> next_fn (snd (addEventListener obj element eventName cb options w))"
  "invocations (snd (addEventListener obj element eventName cb options w)) = invocations w"
  "isDestroyed (snd (addEventListener obj element eventName cb options w)) = isDestroyed w"
  "PASSIVE_SUPPORTED (snd (addEventListener obj element eventName cb options w))
     = PASSIVE_SUPPORTED w"
  "blob_prototype (snd (addEventListener obj element eventName cb options w)) = blob_prototype w"
  by (simp_all add: addEventListener_def getEventListeners_def registerDisposable_def Let_def
        split: option.splits)

lemma removeEventListener_frame:
  "timers (snd (removeEventListener obj element eventName cb options w)) = timers w"
  "next_timer (snd (removeEventListener obj element eventName cb options w)) = next_timer w"
  "registeredDebounces (snd (removeEventListener obj element eventName cb options w))
     = registeredDebounces w"
  "next_fn (snd (removeEventListener obj element eventName cb options w)) = next_fn w"
  "invocations (snd (removeEventListener obj element eventName cb options w)) = invocations w"
  "isDestroyed (snd (removeEventListener obj element eventName cb options w)) = isDestroyed w"
  "PASSIVE_SUPPORTED (snd (removeEventListener obj element eventName cb options w))
     = PASSIVE_SUPPORTED w"
  "blob_prototype (snd (removeEventListener obj element eventName cb options w))
     = blob_prototype w"
  by (simp_all add: removeEventListener_def getEventListeners_def registerDisposable_def Let_def
        split: option.splits)

lemma run_disposable_frame:
  "invocations (snd (run_disposable d w)) = invocations w"
  "isDestroyed (snd (run_disposable d w)) = isDestroyed w"
  "registeredDebounces (snd (run_disposable d w)) = registeredDebounces w"
  "eventListeners (snd (run_disposable d w)) = eventListeners w"
  "PASSIVE_SUPPORTED (snd (run_disposable d w)) = PASSIVE_SUPPORTED w"
  "next_timer (snd (run_disposable d w)) = next_timer w"
  "next_fn (snd (run_disposable d w)) = next_fn w"
  "blob_prototype (snd (run_disposable d w)) = blob_prototype w"
  by (cases d; simp add: getDebouncesDisposable_frame getEventListenersDisposable_frame)+

lemma run_disposable_list_frame:
  "invocations (snd (run_disposable_list ds w)) = invocations w
   \<and> isDestroyed (snd (run_disposable_list ds w)) = isDestroyed w
   \<and> registeredDebounces (snd (run_disposable_list ds w)) = registeredDebounces w
   \<and> eventListeners (snd (run_disposable_list ds w)) = eventListeners w
   \<and> PASSIVE_SUPPORTED (snd (run_disposable_list ds w)) = PASSIVE_SUPPORTED w
   \<and> next_timer (snd (run_disposable_list ds w)) = next_timer w
   \<and> next_fn (snd (run_disposable_list ds w)) = next_fn w
   \<and> blob_prototype (snd (run_disposable_list ds w)) = blob_prototype w"
proof (induction ds arbitrary: w)
  case Nil
  show ?case by simp
next
  case (Cons d ds)
  from Cons [of "snd (run_disposable d w)"] run_disposable_frame [of d w] show ?case
    by (cases "run_disposable d w") (auto split: option.splits)
qed

lemma runDisposables_frame:
  "invocations (snd (runDisposables obj w)) = invocations w"
  "isDestroyed (snd (runDisposables obj w)) = isDestroyed w"
  "registeredDebounces (snd (runDisposables obj w)) = registeredDebounces w"
  "eventListeners (snd (runDisposables obj w)) = eventListeners w"
  "PASSIVE_SUPPORTED (snd (runDisposables obj w)) = PASSIVE_SUPPORTED w"
  "next_timer (snd (runDisposables obj w)) = next_timer w"
  "next_fn (snd (runDisposables obj w)) = next_fn w"
  "blob_prototype (snd (runDisposables obj w)) = blob_prototype w"
  by (simp_all add: runDisposables_def run_disposable_list_frame)

lemma exec_cmd_frame:
  "invocations (snd (exec_cmd P c w)) = invocations w"
  "isDestroyed (snd (exec_cmd P c w)) = isDestroyed w"
  "PASSIVE_SUPPORTED (snd (exec_cmd P c w)) = PASSIVE_SUPPORTED w"
  by (cases c; simp add: debounceTask_frame cancelDebounce_frame addEventListener_frame
        removeEventListener_frame runDisposables_frame)+

lemma exec_cmds_frame:
  "invocations (snd (exec_cmds P cs w)) = invocations w
   \<and> isDestroyed (snd (exec_cmds P cs w)) = isDestroyed w
   \<and> PASSIVE_SUPPORTED (snd (exec_cmds P cs w)) = PASSIVE_SUPPORTED w"
proof (induction cs arbitrary: w)
  case Nil
  show ?case by simp
next
  case (Cons c cs)
  from Cons [of "snd (exec_cmd P c w)"] exec_cmd_frame [of P c w] show ?case
    by (cases "exec_cmd P c w") (auto split: option.splits)
qed

subsection \<open>Firing\<close>

lemma find_timer:
  assumes "find (\<lambda>t. tm_token t = tok \<and> tm_due t \<le> n) ts = Some t"
  shows "t \<in> set ts" and "tm_token t = tok" and "tm_due t \<le> n"
  using assms by (auto simp: find_Some_iff)

lemma fire_unfold:
  assumes "find (\<lambda>t. tm_token t = tok \<and> tm_due t \<le> now w) (timers w) = Some t"
  shows "tm_method t = Some f \<Longrightarrow>
           fire P tok w = call_debouncedTask P f (tm_args t) (cancel (Some tok) w)"
    and "tm_method t = None \<Longrightarrow> fire P tok w = (Some TypeError, cancel (Some tok) w)"
  using assms by (simp_all add: fire_def cancel.simps)

lemma fire_skip:
  assumes "find (\<lambda>t. tm_token t = tok \<and> tm_due t \<le> now w) (timers w) = None"
  shows "fire P tok w = (None, w)"
  using assms by (simp add: fire_def)

lemma invoke_frame [simp]:
  "timers (invoke obj name args w) = timers w"
  "registeredDebounces (invoke obj name args w) = registeredDebounces w"
  "blob_prototype (invoke obj name args w) = blob_prototype w"
  "next_timer (invoke obj name args w) = next_timer w"
  "next_fn (invoke obj name args w) = next_fn w"
  "now (invoke obj name args w) = now w"
  "isDestroyed (invoke obj name args w) = isDestroyed w"
  "invocations (invoke obj name args w) = invocations w @ [(obj, name, args)]"
  by (simp_all add: invoke_def)

lemma elapse_frame [simp]:
  "timers (elapse d w) = timers w" "now (elapse d w) = now w + d"
  "invocations (elapse d w) = invocations w" "isDestroyed (elapse d w) = isDestroyed w"
  "registeredDebounces (elapse d w) = registeredDebounces w"
  "blob_prototype (elapse d w) = blob_prototype w"
  "next_timer (elapse d w) = next_timer w" "next_fn (elapse d w) = next_fn w"
  by (simp_all add: elapse_def)

lemma call_debouncedTask_invocations:
  assumes "typeof_function (P obj name)"
  shows "invocations (snd (call_debouncedTask P (Closure i obj name) args w))
     = invocations w @ [(obj, name, args)]"
  using assms by (cases "P obj name") (simp_all add: exec_cmds_frame)

lemma entry_elapse [simp]: "entry (elapse d w) = entry w"
  by (rule entry_frame) simp

lemma entry_invoke [simp]: "entry (invoke obj name args w) = entry w"
  by (rule entry_frame) simp

lemma delete_pending_dom:
  "(registeredDebounces (delete_pending obj name w) obj' = None)
     = (registeredDebounces w obj' = None)"
  by (simp add: delete_pending_def split: option.splits)

lemma the_prototype_frame:
  assumes "\<And>obj. (registeredDebounces w' obj = None) = (registeredDebounces w obj = None)"
    and "blob_prototype w' = blob_prototype w"
  shows "the_prototype w' = the_prototype w"
proof
  fix obj
  from assms(1) [of obj] assms(2) show "the_prototype w' obj = the_prototype w obj"
    by (cases "registeredDebounces w obj"; cases "registeredDebounces w' obj")
       (simp_all add: the_prototype_def)
qed

lemma the_prototype_simps [simp]:
  "the_prototype (elapse d w) = the_prototype w"
  "the_prototype (invoke obj name args w) = the_prototype w"
  "the_prototype (cancel c w) = the_prototype w"
  "the_prototype (delete_pending obj name w) = the_prototype w"
  by (rule the_prototype_frame; simp add: delete_pending_dom)+

lemma run_append: "run P (es @ es') w = run P es' (run P es w)"
  by (induction es arbitrary: w) simp_all

lemma run_replicate_Suc:
  "run P (replicate (Suc n) e) w = step P e (run P (replicate n e) w)"
proof -
  have "replicate (Suc n) e = replicate n e @ [e]" by (simp add: replicate_append_same)
  then show ?thesis by (simp only: run_append) simp
qed

lemma find_unique:
  assumes "distinct (map tm_token ts)" and "t \<in> set ts" and "tm_due t \<le> n"
  shows "find (\<lambda>t'. tm_token t' = tm_token t \<and> tm_due t' \<le> n) ts = Some t"
  using assms by (induction ts) (auto simp: image_iff)

lemma find_not_due:
  assumes "distinct (map tm_token ts)" and "t \<in> set ts" and "n < tm_due t"
  shows "find (\<lambda>t'. tm_token t' = tm_token t \<and> tm_due t' \<le> n) ts = None"
proof -
  have "\<forall>t' \<in> set ts. tm_token t' = tm_token t \<longrightarrow> t' = t"
    using assms(1,2) by (meson distinct_map inj_onD)
  with assms(3) show ?thesis by (fastforce simp: find_None_iff)
qed

subsection \<open>The state after a call of \<open>debounceTask\<close>\<close>

lemma entry_getPendingDebounces [simp]:
  "entry (snd (getPendingDebounces obj w)) = entry w"
  by (auto simp: entry_def the_blob_def getPendingDebounces_frame(1) fun_eq_iff
        split: option.splits)

lemma set_pending_entry:
  assumes "registeredDebounces w obj = Some b"
  shows "entry (snd (set_pending obj name e w)) obj' name' =
     (if obj' = obj \<and> name' = name
         \<and> (map_of b name \<noteq> None
            \<or> (name \<noteq> ''__proto__'' \<and> \<not> (name = ''size'' \<and> blob_prototype w obj = Map_prototype)))
      then Some e else entry w obj' name')"
    and "blob_prototype (snd (set_pending obj name e w)) =
     (if map_of b name = None \<and> name = ''__proto__''
      then (blob_prototype w)(obj := Entry_prototype e) else blob_prototype w)"
    and "fst (set_pending obj name e w) =
     (if map_of b name = None \<and> name = ''size'' \<and> blob_prototype w obj = Map_prototype
      then Some TypeError else None)"
    and "registeredDebounces (snd (set_pending obj name e w)) =
     (registeredDebounces w)(obj \<mapsto>
        if map_of b name \<noteq> None
            \<or> (name \<noteq> ''__proto__'' \<and> \<not> (name = ''size'' \<and> blob_prototype w obj = Map_prototype))
        then AList.update name e b else b)"
  using assms
  by (auto simp: entry_def the_blob_def set_pending_def update_conv' fun_upd_idem
        split: option.splits)

lemma debounceTask_fields:
  fixes a :: "jsval list" and d :: nat
  assumes "typeof_function (P obj name)" and "\<not> isDestroyed w obj"
  defines "w' \<equiv> snd (debounceTask P obj (Str name) a d w)"
  shows "timers w' =
           filter (\<lambda>t. \<not> (tm_target t = obj \<and> tm_method t = the_task w obj name)) (timers w)
           @ [\<lparr> tm_token = next_timer w, tm_target = obj, tm_method = the_task w obj name,
                tm_args = a, tm_due = now w + d \<rparr>]"
    and "next_timer w' = Suc (next_timer w)"
    and "next_fn w' = (if truthy_blobval (the_property w obj name) then next_fn w
                       else Suc (next_fn w))"
    and "entry w' obj' name' =
           (if obj' = obj \<and> name' = name
               \<and> (entry w obj name \<noteq> None
                  \<or> (name \<noteq> ''__proto__''
                      \<and> \<not> (name = ''size'' \<and> the_prototype w obj = Map_prototype)))
            then Some \<lparr> debouncedTask = the_task w obj name, cancelId = next_timer w \<rparr>
            else entry w obj' name')"
    and "blob_prototype w' =
           (blob_prototype w)(obj :=
              if entry w obj name = None \<and> name = ''__proto__''
              then Entry_prototype \<lparr> debouncedTask = the_task w obj name, cancelId = next_timer w \<rparr>
              else the_prototype w obj)"
    and "fst (debounceTask P obj (Str name) a d w) =
           (if entry w obj name = None \<and> name = ''size'' \<and> the_prototype w obj = Map_prototype
            then Some TypeError else None)"
    and "registeredDebounces w' =
           (registeredDebounces w)(obj \<mapsto>
              if entry w obj name \<noteq> None
                  \<or> (name \<noteq> ''__proto__''
                      \<and> \<not> (name = ''size'' \<and> the_prototype w obj = Map_prototype))
              then AList.update name
                     \<lparr> debouncedTask = the_task w obj name, cancelId = next_timer w \<rparr>
                     (the_blob w obj)
              else the_blob w obj)"
proof -
  define w1 where "w1 = (snd (getPendingDebounces obj w))
          \<lparr> next_fn := (if truthy_blobval (the_property w obj name) then next_fn w
                        else Suc (next_fn w)),
            timers :=
              filter (\<lambda>t. \<not> (tm_target t = obj \<and> tm_method t = the_task w obj name)) (timers w)
              @ [\<lparr> tm_token = next_timer w, tm_target = obj, tm_method = the_task w obj name,
                   tm_args = a, tm_due = now w + d \<rparr>],
            next_timer := Suc (next_timer w) \<rparr>"
  have u: "debounceTask P obj (Str name) a d w =
      set_pending obj name \<lparr> debouncedTask = the_task w obj name, cancelId = next_timer w \<rparr> w1"
    unfolding w1_def
    by (rule debounceTask_unfold [where P = P and obj = obj and name = name, OF assms(1,2)])
  have r: "registeredDebounces w1 obj = Some (the_blob w obj)"
    and p: "blob_prototype w1 = (blob_prototype w)(obj := the_prototype w obj)"
    by (simp_all add: w1_def getPendingDebounces_frame)
  have "registeredDebounces w1 = registeredDebounces (snd (getPendingDebounces obj w))"
    by (simp add: w1_def)
  then have "entry w1 = entry (snd (getPendingDebounces obj w))" by (rule entry_frame)
  then have e: "entry w1 = entry w" by simp
  have m: "map_of (the_blob w obj) name = entry w obj name" by (simp add: entry_def)
  show "timers w' =
           filter (\<lambda>t. \<not> (tm_target t = obj \<and> tm_method t = the_task w obj name)) (timers w)
           @ [\<lparr> tm_token = next_timer w, tm_target = obj, tm_method = the_task w obj name,
                tm_args = a, tm_due = now w + d \<rparr>]"
    and "next_timer w' = Suc (next_timer w)"
    and "next_fn w' = (if truthy_blobval (the_property w obj name) then next_fn w
                       else Suc (next_fn w))"
    by (simp_all add: w'_def u set_pending_frame) (simp_all add: w1_def)
  show "entry w' obj' name' =
           (if obj' = obj \<and> name' = name
               \<and> (entry w obj name \<noteq> None
                  \<or> (name \<noteq> ''__proto__''
                      \<and> \<not> (name = ''size'' \<and> the_prototype w obj = Map_prototype)))
            then Some \<lparr> debouncedTask = the_task w obj name, cancelId = next_timer w \<rparr>
            else entry w obj' name')"
    unfolding w'_def u set_pending_entry(1) [OF r] m e by (simp add: p)
  show "blob_prototype w' =
           (blob_prototype w)(obj :=
              if entry w obj name = None \<and> name = ''__proto__''
              then Entry_prototype \<lparr> debouncedTask = the_task w obj name, cancelId = next_timer w \<rparr>
              else the_prototype w obj)"
    unfolding w'_def u set_pending_entry(2) [OF r] m by (auto simp: p)
  show "fst (debounceTask P obj (Str name) a d w) =
           (if entry w obj name = None \<and> name = ''size'' \<and> the_prototype w obj = Map_prototype
            then Some TypeError else None)"
    unfolding u set_pending_entry(3) [OF r] m by (simp add: p)
  show "registeredDebounces w' =
           (registeredDebounces w)(obj \<mapsto>
              if entry w obj name \<noteq> None
                  \<or> (name \<noteq> ''__proto__''
                      \<and> \<not> (name = ''size'' \<and> the_prototype w obj = Map_prototype))
              then AList.update name
                     \<lparr> debouncedTask = the_task w obj name, cancelId = next_timer w \<rparr>
                     (the_blob w obj)
              else the_blob w obj)"
    unfolding w'_def u set_pending_entry(4) [OF r] m
    by (simp add: p w1_def getPendingDebounces_frame)
qed

lemma plain_names [simp]:
  "plain name \<Longrightarrow> name \<noteq> ''__proto__''" "plain name \<Longrightarrow> name \<noteq> ''size''"
  by (auto simp: plain_def inherited_names_def)

lemma debounceTask_plain:
  fixes a :: "jsval list" and d :: nat
  assumes "typeof_function (P obj name)" and "\<not> isDestroyed w obj" and "plain name"
  shows "fst (debounceTask P obj (Str name) a d w) = None"
    and "entry (snd (debounceTask P obj (Str name) a d w)) obj' name' =
     (if obj' = obj \<and> name' = name
      then Some \<lparr> debouncedTask = the_task w obj name, cancelId = next_timer w \<rparr>
      else entry w obj' name')"
    and "next_fn (snd (debounceTask P obj (Str name) a d w))
           = (if entry w obj name = None then Suc (next_fn w) else next_fn w)"
  using assms(3)
  by (auto simp: debounceTask_fields [where P = P and a = a and d = d, OF assms(1,2)]
        the_property_plain split: option.splits)

subsection \<open>The debounce registry stays consistent\<close>

lemma the_property_cases:
  obtains (own) e where "entry w obj name = Some e" "the_property w obj name = BEntry e"
  | (inherited) "entry w obj name = None"
      "the_property w obj name = inherited (the_prototype w obj) name"
  by (cases "entry w obj name") (auto simp: the_property_def get_property_def entry_def)

lemma the_prototype_wf:
  assumes "wf_debounce w" and "the_prototype w obj = Entry_prototype e"
  shows "debouncedTask e = None"
  using assms by (auto simp: the_prototype_def wf_debounce_def split: option.splits)

lemma inherited_debouncedTask:
  assumes "\<And>e. proto = Entry_prototype e \<Longrightarrow> debouncedTask e = None"
  shows "debouncedTask_of (inherited proto name) = None"
  using assms by (cases proto) (auto split: option.splits)

lemma the_task_shape:
  assumes wf: "wf_debounce w"
  shows "(the_task w obj name = None \<and> \<not> plain name \<and> truthy_blobval (the_property w obj name))
       \<or> (\<exists>i. the_task w obj name = Some (Closure i obj name)
              \<and> (if truthy_blobval (the_property w obj name) then i < next_fn w
                  else i = next_fn w))"
proof (cases rule: the_property_cases [of w obj name])
  case (own e)
  from wf own(1) have "built_for (next_fn w) obj name (debouncedTask e)"
    unfolding wf_debounce_def by blast
  then show ?thesis
    by (cases "debouncedTask e")
       (auto simp: the_task_def own(2) built_for_def split: closure.splits)
next
  case inherited
  show ?thesis
  proof (cases "truthy_blobval (the_property w obj name)")
    case False
    then show ?thesis by (simp add: the_task_def)
  next
    case True
    with inherited(2) have np: "\<not> plain name" using plain_inherited [of name] by auto
    have "debouncedTask_of (the_property w obj name) = None"
      unfolding inherited(2)
      by (rule inherited_debouncedTask) (rule the_prototype_wf [OF wf])
    with True np show ?thesis by (simp add: the_task_def)
  qed
qed

lemma the_task_proto:
  assumes wf: "wf_debounce w"
  shows "the_task w obj ''__proto__'' = None"
proof -
  from wf have "entry w obj ''__proto__'' = None" by (simp add: wf_debounce_def)
  then have p: "the_property w obj ''__proto__'' = inherited (the_prototype w obj) ''__proto__''"
    by (simp add: the_property_def get_property_def entry_def)
  have t: "truthy_blobval (inherited (the_prototype w obj) ''__proto__'')"
    by (cases "the_prototype w obj") simp_all
  have "debouncedTask_of (inherited (the_prototype w obj) ''__proto__'') = None"
    by (rule inherited_debouncedTask) (rule the_prototype_wf [OF wf])
  with t show ?thesis by (simp add: the_task_def p)
qed

lemma built_for_mono:
  "n \<le> n' \<Longrightarrow> built_for n obj name task \<Longrightarrow> built_for n' obj name task"
  by (auto simp: built_for_def split: option.splits closure.splits)

lemma tracked_frame:
  "entry w' = entry w \<Longrightarrow> next_fn w \<le> next_fn w' \<Longrightarrow> tracked w t \<Longrightarrow> tracked w' t"
  by (auto simp: tracked_def split: option.splits closure.splits)

lemma trackedD:
  assumes "tracked w t" and "tm_method t = Some (Closure i obj name)"
  shows "i < next_fn w"
    and "plain name \<Longrightarrow> tm_target t = obj"
    and "plain name \<Longrightarrow>
           entry w obj name = Some \<lparr> debouncedTask = tm_method t, cancelId = tm_token t \<rparr>"
  using assms by (auto simp: tracked_def)

lemma wf_debounce_debounceTask:
  assumes wf: "wf_debounce w"
  shows "wf_debounce (snd (debounceTask P obj name a d w))"
proof (cases "typeof_string name \<and> typeof_function (P obj (string_of name)) \<and> \<not> isDestroyed w obj")
  case False
  with wf show ?thesis by (simp add: debounceTask_failure(1))
next
  case True
  then obtain n where n: "name = Str n" by (cases name) auto
  define w' where "w' = snd (debounceTask P obj (Str n) a d w)"
  define E where "E = \<lparr> debouncedTask = the_task w obj n, cancelId = next_timer w \<rparr>"
  define stored where "stored \<longleftrightarrow> (entry w obj n \<noteq> None
      \<or> (n \<noteq> ''__proto__'' \<and> \<not> (n = ''size'' \<and> the_prototype w obj = Map_prototype)))"
  from True n have ok: "typeof_function (P obj n)" "\<not> isDestroyed w obj" by auto
  note f = debounceTask_fields [where P = P and obj = obj and name = n and w = w and a = a and d = d,
      OF ok, folded w'_def E_def stored_def]
  note shape = the_task_shape [OF wf, of obj n]
  have mono: "next_fn w \<le> next_fn w'" by (simp add: f)
  have noproto: "entry w obj ''__proto__'' = None" using wf by (simp add: wf_debounce_def)
  have stored_plain: "stored" if "plain n" using that by (auto simp: stored_def)
  have d1: "distinct (map tm_token (timers w'))"
    using wf by (auto simp: f wf_debounce_def distinct_map_filter)
  have d2: "\<forall>t \<in> set (timers w'). tm_token t < next_timer w' \<and> tracked w' t"
  proof
    fix t assume "t \<in> set (timers w')"
    then consider (old) "t \<in> set (timers w)" "\<not> (tm_target t = obj \<and> tm_method t = the_task w obj n)"
      | (new) "t = \<lparr> tm_token = next_timer w, tm_target = obj, tm_method = the_task w obj n,
                tm_args = a, tm_due = now w + d \<rparr>"
      by (auto simp: f)
    then show "tm_token t < next_timer w' \<and> tracked w' t"
    proof cases
      case old
      with wf have lt: "tm_token t < next_timer w" and tw: "tracked w t"
        by (auto simp: wf_debounce_def)
      have "tracked w' t"
      proof (cases "tm_method t")
        case None
        then show ?thesis by (simp add: tracked_def)
      next
        case (Some c)
        obtain j ob m where c: "c = Closure j ob m" by (cases c)
        note td = trackedD [OF tw Some [unfolded c]]
        have "tm_target t = ob \<and>
            entry w' ob m = Some \<lparr> debouncedTask = tm_method t, cancelId = tm_token t \<rparr>"
          if pl: "plain m"
        proof -
          have "\<not> (ob = obj \<and> m = n)"
          proof
            assume eq: "ob = obj \<and> m = n"
            with td(3) [OF pl] pl have "the_task w obj n = tm_method t"
              by (simp add: the_task_plain)
            with old(2) td(2) [OF pl] eq show False by simp
          qed
          with td(2,3) [OF pl] show ?thesis by (auto simp: f)
        qed
        with td(1) mono show ?thesis by (simp add: tracked_def Some c)
      qed
      with lt show ?thesis by (simp add: f)
    next
      case new
      from shape have "tracked w' t"
      proof
        assume "the_task w obj n = None \<and> \<not> plain n \<and> truthy_blobval (the_property w obj n)"
        then show ?thesis by (simp add: tracked_def new)
      next
        assume "\<exists>i. the_task w obj n = Some (Closure i obj n)
              \<and> (if truthy_blobval (the_property w obj n) then i < next_fn w else i = next_fn w)"
        then obtain i where i: "the_task w obj n = Some (Closure i obj n)"
          "if truthy_blobval (the_property w obj n) then i < next_fn w else i = next_fn w"
          by blast
        from i(2) have "i < next_fn w'" by (simp add: f split: if_splits)
        then show ?thesis using i(1) stored_plain by (simp add: tracked_def new f E_def)
      qed
      then show ?thesis by (simp add: f new)
    qed
  qed
  have d3: "built_for (next_fn w') obj' name' (debouncedTask p)"
    if p: "entry w' obj' name' = Some p" for obj' name' p
  proof (cases "obj' = obj \<and> name' = n \<and> stored")
    case True
    with p have pe: "p = E" by (simp add: f)
    from shape show ?thesis
    proof
      assume "the_task w obj n = None \<and> \<not> plain n \<and> truthy_blobval (the_property w obj n)"
      with True show ?thesis by (simp add: pe E_def built_for_def)
    next
      assume "\<exists>i. the_task w obj n = Some (Closure i obj n)
              \<and> (if truthy_blobval (the_property w obj n) then i < next_fn w else i = next_fn w)"
      then obtain i where i: "the_task w obj n = Some (Closure i obj n)"
        "if truthy_blobval (the_property w obj n) then i < next_fn w else i = next_fn w"
        by blast
      from i(2) have "i < next_fn w'" by (simp add: f split: if_splits)
      with i(1) True show ?thesis by (simp add: pe E_def built_for_def)
    qed
  next
    case False
    with p have "entry w obj' name' = Some p" by (auto simp: f split: if_splits)
    with wf have "built_for (next_fn w) obj' name' (debouncedTask p)"
      unfolding wf_debounce_def by blast
    with mono show ?thesis by (rule built_for_mono)
  qed
  have d4: "debouncedTask e = None" if "blob_prototype w' ob = Entry_prototype e" for ob e
  proof (cases "ob = obj")
    case False
    with that wf show ?thesis by (auto simp: f wf_debounce_def)
  next
    case True
    show ?thesis
    proof (cases "entry w obj n = None \<and> n = ''__proto__''")
      case True
      with that \<open>ob = obj\<close> have "e = E" by (simp add: f noproto)
      with True the_task_proto [OF wf, of obj] show ?thesis by (simp add: E_def)
    next
      case False
      with that \<open>ob = obj\<close> have "the_prototype w obj = Entry_prototype e"
        by (auto simp: f split: if_splits)
      with wf show ?thesis by (rule the_prototype_wf)
    qed
  qed
  have d5: "entry w' ob ''__proto__'' = None" for ob
  proof -
    have "entry w ob ''__proto__'' = None" using wf by (simp add: wf_debounce_def)
    moreover have "\<not> (ob = obj \<and> ''__proto__'' = n \<and> stored)"
      using noproto by (auto simp: stored_def)
    ultimately show ?thesis by (simp add: f)
  qed
  from d1 d2 d3 d4 d5 show ?thesis unfolding n w'_def [symmetric] wf_debounce_def by blast
qed

lemma wf_debounce_frame:
  assumes "wf_debounce w" and "timers w' = timers w" and "next_timer w' = next_timer w"
    and "registeredDebounces w' = registeredDebounces w" and "next_fn w \<le> next_fn w'"
    and "blob_prototype w' = blob_prototype w"
  shows "wf_debounce w'"
proof -
  have e: "entry w' = entry w" using assms(4) by (rule entry_frame)
  then have t: "\<And>t. tracked w t \<Longrightarrow> tracked w' t" using assms(5) by (rule tracked_frame)
  have "built_for (next_fn w') obj name (debouncedTask p)"
    if "entry w obj name = Some p" for obj name p
  proof -
    from assms(1) that have "built_for (next_fn w) obj name (debouncedTask p)"
      unfolding wf_debounce_def by blast
    with assms(5) show ?thesis by (rule built_for_mono)
  qed
  with t show ?thesis using assms(1) unfolding wf_debounce_def assms(2,3,6) e by blast
qed

lemma wf_debounce_cancel:
  assumes "wf_debounce w"
  shows "wf_debounce (cancel c w)"
proof (cases c)
  case None
  with assms show ?thesis by simp
next
  case (Some tok)
  have "\<And>t. tracked w t \<Longrightarrow> tracked (cancel (Some tok) w) t" by (rule tracked_frame) simp_all
  then show ?thesis using assms unfolding Some
    by (auto simp: wf_debounce_def distinct_map_filter)
qed

lemma pending_for_token:
  assumes "wf_debounce w" and "t \<in> set (pending_for obj name w)" and "plain name"
  shows "entry w obj name = Some \<lparr> debouncedTask = tm_method t, cancelId = tm_token t \<rparr>"
    and "tm_target t = obj"
proof -
  from assms(2) obtain i where t: "t \<in> set (timers w)" "tm_method t = Some (Closure i obj name)"
    by (auto simp: pending_for_def split: option.splits closure.splits)
  with assms(1) have "tracked w t" by (simp add: wf_debounce_def)
  from trackedD(2,3) [OF this t(2) assms(3)]
  show "entry w obj name = Some \<lparr> debouncedTask = tm_method t, cancelId = tm_token t \<rparr>"
    and "tm_target t = obj"
    by simp_all
qed

lemma pending_for_frame:
  "timers w' = timers w \<Longrightarrow> pending_for obj name w' = pending_for obj name w"
  by (simp add: pending_for_def)

lemma wf_debounce_delete_pending:
  assumes wf: "wf_debounce w" and none: "plain name \<Longrightarrow> pending_for obj name w = []"
  shows "wf_debounce (delete_pending obj name w)"
proof -
  define w' where "w' = delete_pending obj name w"
  have f: "timers w' = timers w" "next_timer w' = next_timer w" "next_fn w' = next_fn w"
    "blob_prototype w' = blob_prototype w"
    by (simp_all add: w'_def)
  have tr: "tracked w' t" if t: "t \<in> set (timers w)" for t
  proof (cases "tm_method t")
    case None
    then show ?thesis by (simp add: tracked_def)
  next
    case (Some c)
    obtain j ob m where c: "c = Closure j ob m" by (cases c)
    from wf t have tw: "tracked w t" by (simp add: wf_debounce_def)
    note td = trackedD [OF tw Some [unfolded c]]
    have "tm_target t = ob \<and>
        entry w' ob m = Some \<lparr> debouncedTask = tm_method t, cancelId = tm_token t \<rparr>"
      if pl: "plain m"
    proof -
      have "\<not> (ob = obj \<and> m = name)"
      proof
        assume eq: "ob = obj \<and> m = name"
        with t Some c have "t \<in> set (pending_for obj name w)" by (simp add: pending_for_def)
        with none pl eq show False by simp
      qed
      with td(2,3) [OF pl] show ?thesis by (auto simp: w'_def entry_delete_pending)
    qed
    with td(1) show ?thesis by (simp add: tracked_def Some c f)
  qed
  have en: "built_for (next_fn w') obj' name' (debouncedTask p)"
    if "entry w' obj' name' = Some p" for obj' name' p
  proof -
    from that have "entry w obj' name' = Some p"
      by (auto simp: w'_def entry_delete_pending split: if_splits)
    with wf show ?thesis unfolding wf_debounce_def f by blast
  qed
  have pr: "entry w' ob ''__proto__'' = None" for ob
    using wf by (simp add: w'_def entry_delete_pending wf_debounce_def)
  from wf tr en pr show ?thesis
    unfolding w'_def [symmetric] wf_debounce_def f(1,2,4) by blast
qed

lemma pending_for_cancel:
  "pending_for obj name (cancel (Some tok) w)
     = filter (\<lambda>t. tm_token t \<noteq> tok) (pending_for obj name w)"
  by (auto simp: pending_for_def cancel.simps intro: filter_cong)

lemma cancel_delete_pending:
  "cancel c (delete_pending obj name w) = delete_pending obj name (cancel c w)"
  by (cases c) (simp_all add: delete_pending_def cancel.simps split: option.splits)

lemma pending_for_cancel_entry:
  assumes wf: "wf_debounce w" and p: "entry w obj name = Some p" and pl: "plain name"
  shows "pending_for obj name (cancel (Some (cancelId p)) w) = []"
proof -
  have "tm_token t = cancelId p" if "t \<in> set (pending_for obj name w)" for t
    using pending_for_token(1) [OF wf that pl] p by auto
  then show ?thesis by (auto simp: pending_for_cancel filter_empty_conv)
qed

lemma pending_for_no_entry:
  assumes wf: "wf_debounce w" and p: "entry w obj name = None" and pl: "plain name"
  shows "pending_for obj name w = []"
proof (rule ccontr)
  assume "pending_for obj name w \<noteq> []"
  then obtain t where "t \<in> set (pending_for obj name w)" by (cases "pending_for obj name w") auto
  from pending_for_token(1) [OF wf this pl] p show False by simp
qed

lemma cancelDebounce_unfold:
  "cancelDebounce obj name w =
     (if the_property w obj name = BUndefined \<or> registeredDebounces w obj = None then (None, w)
      else (None, delete_pending obj name (cancel (cancelId_of (the_property w obj name)) w)))"
  by (simp add: cancelDebounce_def the_property_def the_prototype_def the_blob_def
        cancel_delete_pending Let_def split: option.splits)

lemma cancelDebounce_plain:
  assumes "plain name"
  shows "cancelDebounce obj name w =
     (case entry w obj name of
        None \<Rightarrow> (None, w)
      | Some p \<Rightarrow> (None, delete_pending obj name (cancel (Some (cancelId p)) w)))"
proof (cases "entry w obj name")
  case None
  with assms show ?thesis by (simp add: cancelDebounce_unfold the_property_plain)
next
  case (Some p)
  then have "registeredDebounces w obj \<noteq> None"
    by (auto simp: entry_def the_blob_def split: option.splits)
  with assms Some show ?thesis by (auto simp: cancelDebounce_unfold the_property_plain)
qed

lemma wf_debounce_cancelDebounce:
  assumes wf: "wf_debounce w"
  shows "wf_debounce (snd (cancelDebounce obj name w))"
proof (cases "the_property w obj name = BUndefined \<or> registeredDebounces w obj = None")
  case True
  with wf show ?thesis by (simp add: cancelDebounce_unfold)
next
  case False
  define c where "c = cancelId_of (the_property w obj name)"
  have "wf_debounce (delete_pending obj name (cancel c w))"
  proof (rule wf_debounce_delete_pending)
    show "wf_debounce (cancel c w)" using wf by (rule wf_debounce_cancel)
    show "pending_for obj name (cancel c w) = []" if pl: "plain name"
    proof (cases "entry w obj name")
      case None
      with pl False show ?thesis by (simp add: the_property_plain)
    next
      case (Some p)
      with pl have "c = Some (cancelId p)" by (simp add: c_def the_property_plain)
      with pending_for_cancel_entry [OF wf Some pl] show ?thesis by simp
    qed
  qed
  with False show ?thesis by (auto simp: cancelDebounce_unfold c_def)
qed

lemma wf_debounce_cancel_names:
  "wf_debounce w \<Longrightarrow> wf_debounce (snd (cancel_names debounces proto ns w))"
  by (induction ns arbitrary: w) (auto simp: wf_debounce_cancel)

lemma wf_debounce_getDebouncesDisposable:
  "wf_debounce w \<Longrightarrow> wf_debounce (snd (getDebouncesDisposable obj w))"
  by (auto simp: getDebouncesDisposable_def Let_def wf_debounce_cancel_names split: option.splits)

lemma wf_debounce_getEventListenersDisposable:
  "wf_debounce w \<Longrightarrow> wf_debounce (snd (getEventListenersDisposable obj w))"
  by (rule wf_debounce_frame [where w = w]) (simp_all add: getEventListenersDisposable_frame)

lemma wf_debounce_addEventListener:
  "wf_debounce w \<Longrightarrow> wf_debounce (snd (addEventListener obj element eventName cb options w))"
  by (rule wf_debounce_frame [where w = w]) (simp_all add: addEventListener_frame)

lemma wf_debounce_removeEventListener:
  "wf_debounce w \<Longrightarrow> wf_debounce (snd (removeEventListener obj element eventName cb options w))"
  by (rule wf_debounce_frame [where w = w]) (simp_all add: removeEventListener_frame)

lemma wf_debounce_run_disposable_list:
  "wf_debounce w \<Longrightarrow> wf_debounce (snd (run_disposable_list ds w))"
proof (induction ds arbitrary: w)
  case Nil
  then show ?case by simp
next
  case (Cons d ds)
  have "wf_debounce (snd (run_disposable d w))"
    using Cons.prems
    by (cases d) (simp_all add: wf_debounce_getDebouncesDisposable
        wf_debounce_getEventListenersDisposable)
  with Cons.IH show ?case
    by (cases "run_disposable d w") (auto split: option.splits)
qed

lemma wf_debounce_runDisposables:
  assumes "wf_debounce w"
  shows "wf_debounce (snd (runDisposables obj w))"
  unfolding runDisposables_def
  by (rule wf_debounce_run_disposable_list) (rule wf_debounce_frame [OF assms], simp_all)

lemma wf_debounce_exec_cmd: "wf_debounce w \<Longrightarrow> wf_debounce (snd (exec_cmd P c w))"
  by (cases c)
     (simp_all add: wf_debounce_debounceTask wf_debounce_cancelDebounce
        wf_debounce_addEventListener wf_debounce_removeEventListener wf_debounce_runDisposables)

lemma wf_debounce_exec_cmds: "wf_debounce w \<Longrightarrow> wf_debounce (snd (exec_cmds P cs w))"
proof (induction cs arbitrary: w)
  case Nil
  then show ?case by simp
next
  case (Cons c cs)
  from Cons.prems have "wf_debounce (snd (exec_cmd P c w))" by (rule wf_debounce_exec_cmd)
  with Cons.IH show ?case
    by (cases "exec_cmd P c w") (auto split: option.splits)
qed

lemma wf_debounce_invoke:
  "wf_debounce w \<Longrightarrow> wf_debounce (invoke obj name args w)"
  by (erule wf_debounce_frame) (simp_all add: invoke_def)

lemma wf_debounce_start_task:
  assumes wf: "wf_debounce w" and t: "t \<in> set (timers w)"
    and m: "tm_method t = Some (Closure i obj name)"
  shows "wf_debounce (delete_pending obj name (cancel (Some (tm_token t)) w))"
    and "plain name \<Longrightarrow>
           pending_for obj name (delete_pending obj name (cancel (Some (tm_token t)) w)) = []"
    and "entry (delete_pending obj name (cancel (Some (tm_token t)) w)) obj name = None"
    and "i < next_fn w"
proof -
  from t m have in_p: "t \<in> set (pending_for obj name w)" by (simp add: pending_for_def)
  have none: "pending_for obj name (cancel (Some (tm_token t)) w) = []" if pl: "plain name"
    using pending_for_cancel_entry [OF wf pending_for_token(1) [OF wf in_p pl] pl] by simp
  from wf_debounce_cancel [OF wf] none
  show "wf_debounce (delete_pending obj name (cancel (Some (tm_token t)) w))"
    by (rule wf_debounce_delete_pending)
  from none
  show "plain name \<Longrightarrow>
          pending_for obj name (delete_pending obj name (cancel (Some (tm_token t)) w)) = []"
    by (simp add: pending_for_def)
  show "entry (delete_pending obj name (cancel (Some (tm_token t)) w)) obj name = None"
    by (simp add: entry_delete_pending)
  from wf t have "tracked w t" by (simp add: wf_debounce_def)
  from trackedD(1) [OF this m] show "i < next_fn w" .
qed

lemma wf_debounce_fire:
  assumes wf: "wf_debounce w"
  shows "wf_debounce (snd (fire P tok w))"
proof (cases "find (\<lambda>t. tm_token t = tok \<and> tm_due t \<le> now w) (timers w)")
  case None
  with wf show ?thesis by (simp add: fire_def)
next
  case (Some t)
  from find_timer [OF Some] have t: "t \<in> set (timers w)" "tm_token t = tok" by auto
  show ?thesis
  proof (cases "tm_method t")
    case None
    with wf_debounce_cancel [OF wf, of "Some tok"] show ?thesis
      by (simp add: fire_unfold(2) [OF Some])
  next
    case (Some c)
    obtain i obj name where c: "c = Closure i obj name" by (cases c)
    have m: "tm_method t = Some (Closure i obj name)" using Some c by simp
    have w1: "wf_debounce (delete_pending obj name (cancel (Some tok) w))"
      using wf_debounce_start_task(1) [OF wf t(1) m] t(2) by simp
    show ?thesis
    proof (cases "P obj name")
      case NotAFunction
      with w1 show ?thesis
        by (simp add: fire_unfold(1) [OF \<open>find _ _ = Some t\<close> m] Let_def)
    next
      case (Method body)
      then show ?thesis
        by (simp add: fire_unfold(1) [OF \<open>find _ _ = Some t\<close> m] Let_def wf_debounce_exec_cmds
            wf_debounce_invoke w1)
    qed
  qed
qed

lemma wf_debounce_elapse: "wf_debounce w \<Longrightarrow> wf_debounce (elapse d w)"
  by (erule wf_debounce_frame) (simp_all add: elapse_def)

lemma wf_debounce_destroy: "wf_debounce w \<Longrightarrow> wf_debounce (destroy obj w)"
  by (erule wf_debounce_frame) (simp_all add: destroy_def)

lemma wf_debounce_step: "wf_debounce w \<Longrightarrow> wf_debounce (step P e w)"
  by (cases e)
     (simp_all add: wf_debounce_exec_cmd wf_debounce_elapse wf_debounce_fire wf_debounce_destroy)

lemma wf_debounce_run: "wf_debounce w \<Longrightarrow> wf_debounce (run P es w)"
  by (induction es arbitrary: w) (simp_all add: wf_debounce_step)

lemma wf_debounce_module_init: "wf_debounce (module_init h)"
  by (simp add: wf_debounce_def module_init_def entry_def the_blob_def)

lemma wf_debounce_reachable: "wf_debounce (run P es (module_init h))"
  by (rule wf_debounce_run) (rule wf_debounce_module_init)

subsection \<open>A burst for a plain name\<close>

lemma the_task_closure:
  assumes "wf_debounce w" and "plain name"
  shows "\<exists>i. the_task w obj name = Some (Closure i obj name)"
  using the_task_shape [OF assms(1), of obj name] assms(2) by auto

lemma pending_for_debounceTask:
  fixes a :: "jsval list" and d :: nat
  assumes wf: "wf_debounce w" and ok: "typeof_function (P obj name)" "\<not> isDestroyed w obj"
    and pl: "plain name"
  shows "pending_for obj name (snd (debounceTask P obj (Str name) a d w)) =
     [\<lparr> tm_token = next_timer w, tm_target = obj, tm_method = the_task w obj name,
        tm_args = a, tm_due = now w + d \<rparr>]"
proof -
  obtain i where i: "the_task w obj name = Some (Closure i obj name)"
    using the_task_closure [OF wf pl] by blast
  have "\<not> (\<not> (tm_target t = obj \<and> tm_method t = the_task w obj name)
          \<and> (case tm_method t of None \<Rightarrow> False
             | Some (Closure i obj' name') \<Rightarrow> obj' = obj \<and> name' = name))"
    if "t \<in> set (timers w)" for t
  proof
    assume a: "\<not> (tm_target t = obj \<and> tm_method t = the_task w obj name)
          \<and> (case tm_method t of None \<Rightarrow> False
             | Some (Closure i obj' name') \<Rightarrow> obj' = obj \<and> name' = name)"
    with that have "t \<in> set (pending_for obj name w)" by (simp add: pending_for_def)
    from pending_for_token [OF wf this pl] a pl show False by (simp add: the_task_plain)
  qed
  then have "filter (\<lambda>t. case tm_method t of None \<Rightarrow> False
             | Some (Closure i obj' name') \<Rightarrow> obj' = obj \<and> name' = name)
      (filter (\<lambda>t. \<not> (tm_target t = obj \<and> tm_method t = the_task w obj name)) (timers w)) = []"
    by (auto simp: filter_empty_conv)
  then show ?thesis
    using i by (simp add: pending_for_def
        debounceTask_fields(1) [where P = P and a = a and d = d, OF ok])
qed

lemma fire_due_not_due:
  assumes wf: "wf_debounce w" and p: "pending_for obj name w = [t]" and late: "now w < tm_due t"
  shows "fire_due P obj name w = w"
proof -
  from p have "t \<in> set (pending_for obj name w)" by simp
  then have t: "t \<in> set (timers w)" by (simp add: pending_for_def)
  from wf have "distinct (map tm_token (timers w))" by (simp add: wf_debounce_def)
  from find_not_due [OF this t late] show ?thesis
    by (simp add: fire_due_def p fire_skip)
qed

lemma fire_due_single:
  assumes wf: "wf_debounce w" and p: "pending_for obj name w = [t]" and due: "tm_due t \<le> now w"
    and fn: "typeof_function (P obj name)"
  shows "invocations (fire_due P obj name w) = invocations w @ [(obj, name, tm_args t)]"
proof -
  from p have "t \<in> set (pending_for obj name w)" by simp
  then obtain i where t: "t \<in> set (timers w)" and m: "tm_method t = Some (Closure i obj name)"
    by (auto simp: pending_for_def split: option.splits closure.splits)
  from fn obtain body where body: "P obj name = Method body" by (cases "P obj name") auto
  from wf have "distinct (map tm_token (timers w))" by (simp add: wf_debounce_def)
  from find_unique [OF this t due]
  have "fire P (tm_token t) w
      = call_debouncedTask P (Closure i obj name) (tm_args t) (cancel (Some (tm_token t)) w)"
    using m by (rule fire_unfold(1))
  then show ?thesis
    by (simp add: fire_due_def p body exec_cmds_frame)
qed

lemma burst_step:
  fixes c :: call
  assumes wf: "wf_debounce w" and ok: "typeof_function (P obj name)" "\<not> isDestroyed w obj"
    and pl: "plain name" and gap: "call_gap c < call_wait c"
  defines "w1 \<equiv> elapse (call_gap c) (snd (debounceTask P obj (Str name) (call_args c) (call_wait c) w))"
  shows "burst P obj name [c] w = w1"
    and "wf_debounce w1" and "\<not> isDestroyed w1 obj" and "invocations w1 = invocations w"
    and "\<exists>t. pending_for obj name w1 = [t] \<and> tm_args t = call_args c
           \<and> tm_due t + call_gap c = now w1 + call_wait c"
proof -
  define w0 where "w0 = snd (debounceTask P obj (Str name) (call_args c) (call_wait c) w)"
  have w1: "w1 = elapse (call_gap c) w0" by (simp add: w1_def w0_def)
  note f = debounceTask_frame [where P = P and obj = obj and name = "Str name"
      and a = "call_args c" and d = "call_wait c" and w = w, folded w0_def]
  have wf0: "wf_debounce w0" unfolding w0_def using wf by (rule wf_debounce_debounceTask)
  then show wf1: "wf_debounce w1" unfolding w1 by (rule wf_debounce_elapse)
  show "\<not> isDestroyed w1 obj" using ok by (simp add: w1 f)
  show "invocations w1 = invocations w" by (simp add: w1 f)
  have p: "pending_for obj name w1 =
     [\<lparr> tm_token = next_timer w, tm_target = obj, tm_method = the_task w obj name,
        tm_args = call_args c, tm_due = now w + call_wait c \<rparr>]"
    using pending_for_debounceTask [where P = P and a = "call_args c" and d = "call_wait c",
        OF wf ok pl]
    by (simp add: w1 w0_def pending_for_def)
  then show "\<exists>t. pending_for obj name w1 = [t] \<and> tm_args t = call_args c
           \<and> tm_due t + call_gap c = now w1 + call_wait c"
    by (simp add: w1 f)
  have "fire_due P obj name w1 = w1"
    using wf1 p by (rule fire_due_not_due) (simp add: w1 f gap)
  then show "burst P obj name [c] w = w1" by (simp add: w1 w0_def)
qed

lemma burst_Cons: "burst P obj name (c # cs) w = burst P obj name cs (burst P obj name [c] w)"
  by simp

lemma burst_coalesces:
  assumes "wf_debounce w" and "typeof_function (P obj name)" and "\<not> isDestroyed w obj"
    and "plain name" and "calls \<noteq> []" and "\<forall>c \<in> set calls. call_gap c < call_wait c"
  shows "wf_debounce (burst P obj name calls w)
    \<and> invocations (burst P obj name calls w) = invocations w
    \<and> (\<exists>t. pending_for obj name (burst P obj name calls w) = [t]
          \<and> tm_args t = call_args (last calls)
          \<and> tm_due t + call_gap (last calls)
              = now (burst P obj name calls w) + call_wait (last calls))"
  using assms
proof (induction calls arbitrary: w)
  case Nil
  then show ?case by simp
next
  case (Cons c cs)
  from Cons.prems have gap: "call_gap c < call_wait c" by simp
  note s = burst_step [where P = P and obj = obj and name = name, OF Cons.prems(1,2,3,4) gap]
  show ?case
  proof (cases "cs = []")
    case True
    with s show ?thesis by simp
  next
    case False
    from Cons.prems have "\<forall>c \<in> set cs. call_gap c < call_wait c" by simp
    from Cons.IH [OF s(2) Cons.prems(2) s(3) Cons.prems(4) False this] s(1,4) False
    show ?thesis by (simp del: burst.simps add: burst_Cons [of P obj name c cs])
  qed
qed

text \<open>
  Debounce coalescing holds for every plain name. A burst is a non-empty sequence of calls
  \<^verbatim>\<open>debounceTask(obj, name, ...args, wait)\<close> for one owner and one task name, each made before
  the wait of the previous one has elapsed (\<open>call_gap c < call_wait c\<close>; the gap of the last
  call is the time until the state is looked at), the run loop firing between the calls
  whatever it holds for the pair and is due. In any reachable state in which the owner is
  alive: the burst invokes nothing; after it exactly one invocation is pending for the
  pair, with the arguments of the last call and due one wait after the last call; and
  once that wait has elapsed the task is invoked exactly once, with the arguments of the
  last call.
\<close>

lemma debounce_coalescing_plain:
  fixes P :: program and es :: "event list" and h :: host and calls :: "call list"
    and obj :: owner and name :: string
  defines "w \<equiv> run P es (module_init h)"
  defines "w' \<equiv> burst P obj name calls w"
  assumes "typeof_function (P obj name)" and "\<not> isDestroyed w obj" and "plain name"
    and "calls \<noteq> []" and "\<forall>c \<in> set calls. call_gap c < call_wait c"
  shows "invocations w' = invocations w
    \<and> (\<exists>t. pending_for obj name w' = [t]
          \<and> tm_args t = call_args (last calls)
          \<and> tm_due t + call_gap (last calls) = now w' + call_wait (last calls))
    \<and> invocations (fire_due P obj name
          (elapse (call_wait (last calls) - call_gap (last calls)) w'))
        = invocations w @ [(obj, name, call_args (last calls))]"
proof -
  have wf: "wf_debounce w" unfolding w_def by (rule wf_debounce_reachable)
  from burst_coalesces [where P = P and obj = obj and name = name, OF wf assms(3-7),
      folded w'_def]
  obtain t where wf': "wf_debounce w'" and inv: "invocations w' = invocations w"
    and t: "pending_for obj name w' = [t]" "tm_args t = call_args (last calls)"
      "tm_due t + call_gap (last calls) = now w' + call_wait (last calls)"
    by blast
  define w'' where "w'' = elapse (call_wait (last calls) - call_gap (last calls)) w'"
  have "invocations (fire_due P obj name w'') = invocations w'' @ [(obj, name, tm_args t)]"
  proof (rule fire_due_single)
    show "wf_debounce w''" unfolding w''_def using wf' by (rule wf_debounce_elapse)
    show "pending_for obj name w'' = [t]" using t(1) by (simp add: w''_def pending_for_def)
    show "tm_due t \<le> now w''" using t(3) by (simp add: w''_def)
    show "typeof_function (P obj name)" by fact
  qed
  with inv t show ?thesis by (auto simp: w''_def)
qed

lemma plain_save: "plain ''save''" "plain ''again''"
  by (simp_all add: plain_def inherited_names_def Map_prototype_methods_def
        Object_prototype_methods_def)

lemma debounce_coalescing_plain_instance:
  "invocations (fire_due app 0 ''save'' (elapse 60
        (burst app 0 ''save''
           [\<lparr> call_args = [Num 1], call_wait = 100, call_gap = 30 \<rparr>,
            \<lparr> call_args = [Num 2], call_wait = 100, call_gap = 30 \<rparr>,
            \<lparr> call_args = [Num 3], call_wait = 100, call_gap = 40 \<rparr>]
           (run app [] (module_init ReadsPassive)))))
      = [(0, ''save'', [Num 3])]"
proof -
  have h1: "typeof_function (app 0 ''save'')" by (simp add: app_def)
  have h2: "\<not> isDestroyed (run app [] (module_init ReadsPassive)) 0" by (simp add: module_init_def)
  have h3: "[\<lparr> call_args = [Num 1], call_wait = 100, call_gap = 30 \<rparr>,
             \<lparr> call_args = [Num 2], call_wait = 100, call_gap = 30 \<rparr>,
             \<lparr> call_args = [Num 3], call_wait = 100, call_gap = (40::nat) \<rparr>] \<noteq> []" by simp
  have h4: "\<forall>c \<in> set [\<lparr> call_args = [Num 1], call_wait = 100, call_gap = 30 \<rparr>,
                   \<lparr> call_args = [Num 2], call_wait = 100, call_gap = 30 \<rparr>,
                   \<lparr> call_args = [Num 3], call_wait = 100, call_gap = 40 \<rparr>].
          call_gap c < call_wait c" by simp
  have "invocations (run app [] (module_init ReadsPassive)) = []" by (simp add: module_init_def)
  with debounce_coalescing_plain [where P = app and obj = 0 and name = "''save''"
      and es = "[]" and h = ReadsPassive, OF h1 h2 plain_save(1) h3 h4]
  show ?thesis by (simp del: burst.simps)
qed

subsection \<open>A name that the blob inherits\<close>

lemma the_task_inherited_method:
  assumes "entry w obj name = None" and "the_prototype w obj = Map_prototype"
    and "name \<in> set Map_prototype_methods \<or> name \<in> set Object_prototype_methods"
  shows "the_property w obj name = BFunction" and "the_task w obj name = None"
proof -
  from assms(3) have "name \<noteq> ''size''" "name \<noteq> ''__proto__''"
    by (auto simp: Map_prototype_methods_def Object_prototype_methods_def)
  with assms show "the_property w obj name = BFunction"
    by (simp add: the_property_def get_property_def entry_def)
  then show "the_task w obj name = None" by (simp add: the_task_def)
qed

text \<open>
  For a name of a function that the prototype chain of a new map provides, a first call
  of \<open>debounceTask\<close> builds no wrapper: what it hands to the run loop is \<^verbatim>\<open>undefined\<close>, and
  nothing becomes pending for the owner and the name.
\<close>

lemma debounceTask_inherited_method:
  fixes a :: "jsval list" and d :: nat
  assumes "typeof_function (P obj name)" and "\<not> isDestroyed w obj"
    and "entry w obj name = None" and "the_prototype w obj = Map_prototype"
    and "name \<in> set Map_prototype_methods \<or> name \<in> set Object_prototype_methods"
  defines "w' \<equiv> snd (debounceTask P obj (Str name) a d w)"
  shows "next_fn w' = next_fn w"
    and "timers w' = filter (\<lambda>t. \<not> (tm_target t = obj \<and> tm_method t = None)) (timers w)
           @ [\<lparr> tm_token = next_timer w, tm_target = obj, tm_method = None,
                tm_args = a, tm_due = now w + d \<rparr>]"
    and "entry w' obj name = Some \<lparr> debouncedTask = None, cancelId = next_timer w \<rparr>"
proof -
  note i = the_task_inherited_method [OF assms(3,4,5)]
  from assms(5) have n: "name \<noteq> ''size''" "name \<noteq> ''__proto__''"
    by (auto simp: Map_prototype_methods_def Object_prototype_methods_def)
  note f = debounceTask_fields [where P = P and a = a and d = d, OF assms(1,2), folded w'_def]
  show "next_fn w' = next_fn w" by (simp add: f i)
  show "timers w' = filter (\<lambda>t. \<not> (tm_target t = obj \<and> tm_method t = None)) (timers w)
           @ [\<lparr> tm_token = next_timer w, tm_target = obj, tm_method = None,
                tm_args = a, tm_due = now w + d \<rparr>]"
    by (simp add: f i)
  show "entry w' obj name = Some \<lparr> debouncedTask = None, cancelId = next_timer w \<rparr>"
    using n by (simp add: f i)
qed

text \<open>
  C1. The claim is right and the code is wrong: debounce coalescing fails for the names
  that the blob inherits, because the blob is a \<^verbatim>\<open>Map\<close> that is read and written as a
  plain object. For the burst \<^verbatim>\<open>debounceTask(obj, 'toString', 1, 100)\<close>,
  \<^verbatim>\<open>debounceTask(obj, 'toString', 2, 100)\<close>, \<^verbatim>\<open>debounceTask(obj, 'toString', 3, 100)\<close>, each call
  made before the wait of the previous one has elapsed, on an owner whose \<^verbatim>\<open>toString\<close> is a
  function: line 81 reads the function \<^verbatim>\<open>Object.prototype.toString\<close>, line 90 reads its
  property \<^verbatim>\<open>debouncedTask\<close>, which is \<^verbatim>\<open>undefined\<close>, and no wrapper is ever built. After
  the burst the run loop holds one invocation, of \<^verbatim>\<open>undefined\<close>, and none for the owner
  and the name; once the wait has elapsed, firing it throws a \<^verbatim>\<open>TypeError\<close>, and
  \<^verbatim>\<open>obj.toString\<close> is not invoked at all, where the claim has exactly one invocation with
  the arguments of the last call.
\<close>

theorem debounce_coalescing_fails_for_inherited_name:
  fixes calls :: "call list" and w' :: world
  defines "calls \<equiv> [\<lparr> call_args = [Num 1], call_wait = 100, call_gap = 30 \<rparr>,
                     \<lparr> call_args = [Num 2], call_wait = 100, call_gap = 30 \<rparr>,
                     \<lparr> call_args = [Num 3], call_wait = 100, call_gap = 40 \<rparr>]"
  defines "w' \<equiv> burst app 0 ''toString'' calls (module_init ReadsPassive)"
  shows "typeof_function (app 0 ''toString'')
    \<and> next_fn w' = 0
    \<and> timers w' = [\<lparr> tm_token = 2, tm_target = 0, tm_method = None,
                      tm_args = [Num 3], tm_due = 160 \<rparr>]
    \<and> pending_for 0 ''toString'' w' = []
    \<and> invocations (fire_due app 0 ''toString'' (elapse 60 w')) = []
    \<and> fst (fire app 2 (elapse 60 w')) = Some TypeError
    \<and> timers (snd (fire app 2 (elapse 60 w'))) = []
    \<and> invocations (snd (fire app 2 (elapse 60 w'))) = []"
proof -
  have fn: "typeof_function (app 0 ''toString'')" by (simp add: app_def)
  define w1 where "w1 = elapse 30 (snd (debounceTask app 0 (Str ''toString'') [Num 1] 100
      (module_init ReadsPassive)))"
  define w2 where "w2 = elapse 30 (snd (debounceTask app 0 (Str ''toString'') [Num 2] 100 w1))"
  define w3 where "w3 = elapse 40 (snd (debounceTask app 0 (Str ''toString'') [Num 3] 100 w2))"
  have i: "\<not> isDestroyed (module_init ReadsPassive) 0"
    "entry (module_init ReadsPassive) 0 ''toString'' = None"
    "the_prototype (module_init ReadsPassive) 0 = Map_prototype"
    "''toString'' \<in> set Map_prototype_methods \<or> ''toString'' \<in> set Object_prototype_methods"
    by (simp_all add: module_init_def entry_def the_blob_def the_prototype_def
        Object_prototype_methods_def)
  note s1 = debounceTask_inherited_method [where P = app and a = "[Num 1]" and d = 100,
      OF fn i]
  have f1: "next_fn w1 = 0" "next_timer w1 = 1" "now w1 = 30" "\<not> isDestroyed w1 0"
    "invocations w1 = []"
    "timers w1 = [\<lparr> tm_token = 0, tm_target = 0, tm_method = None,
                    tm_args = [Num 1], tm_due = 100 \<rparr>]"
    "entry w1 0 ''toString'' = Some \<lparr> debouncedTask = None, cancelId = 0 \<rparr>"
    using s1 debounceTask_fields(2) [where P = app and a = "[Num 1]" and d = 100, OF fn i(1)]
    by (simp_all add: w1_def debounceTask_frame) (simp_all add: module_init_def)
  have t1: "the_task w1 0 ''toString'' = None" by (simp add: the_task_own [OF f1(7)])
  note s2 = debounceTask_fields [where P = app and a = "[Num 2]" and d = 100, OF fn f1(4)]
  have f2: "next_fn w2 = 0" "next_timer w2 = 2" "now w2 = 60" "\<not> isDestroyed w2 0"
    "invocations w2 = []"
    "timers w2 = [\<lparr> tm_token = 1, tm_target = 0, tm_method = None,
                    tm_args = [Num 2], tm_due = 130 \<rparr>]"
    "entry w2 0 ''toString'' = Some \<lparr> debouncedTask = None, cancelId = 1 \<rparr>"
    using f1 by (simp_all add: w2_def s2 t1 the_property_own [OF f1(7)] debounceTask_frame)
  have t2: "the_task w2 0 ''toString'' = None" by (simp add: the_task_own [OF f2(7)])
  note s3 = debounceTask_fields [where P = app and a = "[Num 3]" and d = 100, OF fn f2(4)]
  have f3: "next_fn w3 = 0" "next_timer w3 = 3" "now w3 = 100" "\<not> isDestroyed w3 0"
    "invocations w3 = []"
    "timers w3 = [\<lparr> tm_token = 2, tm_target = 0, tm_method = None,
                    tm_args = [Num 3], tm_due = 160 \<rparr>]"
    using f2 by (simp_all add: w3_def s3 t2 the_property_own [OF f2(7)] debounceTask_frame)
  have p1: "pending_for 0 ''toString'' w1 = []" by (simp add: pending_for_def f1)
  have p2: "pending_for 0 ''toString'' w2 = []" by (simp add: pending_for_def f2)
  have p3: "pending_for 0 ''toString'' w3 = []" by (simp add: pending_for_def f3)
  have b: "w' = w3"
    by (simp add: w'_def calls_def fire_due_def p1 p2 p3
        w1_def [symmetric] w2_def [symmetric] w3_def [symmetric])
  have fd: "fire_due app 0 ''toString'' (elapse 60 w3) = elapse 60 w3"
    using p3 by (simp add: fire_due_def pending_for_def)
  have fi: "fire app 2 (elapse 60 w3) = (Some TypeError, cancel (Some 2) (elapse 60 w3))"
    by (rule fire_unfold(2) [where t = "\<lparr> tm_token = 2, tm_target = 0, tm_method = None,
                    tm_args = [Num 3], tm_due = 160 \<rparr>"]) (simp_all add: f3)
  from fn show ?thesis unfolding b fd fi by (simp add: f3 p3)
qed

subsection \<open>Re-arming an entry\<close>



subsection \<open>Cancelling\<close>

lemma cancelDebounce_clears:
  assumes wf: "wf_debounce w" and pl: "plain name"
  shows "pending_for obj name (snd (cancelDebounce obj name w)) = []"
    and "entry (snd (cancelDebounce obj name w)) obj name = None"
proof -
  show "pending_for obj name (snd (cancelDebounce obj name w)) = []"
  proof (cases "entry w obj name")
    case None
    with pending_for_no_entry [OF wf None pl] show ?thesis
      by (simp add: cancelDebounce_plain [OF pl])
  next
    case (Some p)
    with pending_for_cancel_entry [OF wf Some pl] show ?thesis
      by (simp add: cancelDebounce_plain [OF pl] pending_for_def)
  qed
  show "entry (snd (cancelDebounce obj name w)) obj name = None"
    by (cases "entry w obj name")
       (simp_all add: cancelDebounce_plain [OF pl] entry_delete_pending)
qed

text \<open>
  For every plain name \<open>cancelDebounce\<close> does what is claimed. It never raises. When the
  owner has no blob, or its blob has no entry for the name, the state is left as it was.
  When there is an entry, it is removed from the blob and the invocation with the stored
  token is cancelled. In any reachable state, after one or more calls of \<open>cancelDebounce\<close>
  for a pair, the pair has no entry and no invocation is pending for it.
\<close>

lemma cancelDebounce_idempotent_plain:
  fixes P :: program and es :: "event list" and h :: host and v :: world
    and obj :: owner and name :: string and n :: nat
  defines "w \<equiv> run P es (module_init h)"
  defines "w' \<equiv> run P (replicate (Suc n) (Call (CancelDebounce obj name))) w"
  assumes pl: "plain name"
  shows "fst (cancelDebounce obj name v) = None
    \<and> (registeredDebounces v obj = None \<longrightarrow> snd (cancelDebounce obj name v) = v)
    \<and> (\<forall>b. registeredDebounces v obj = Some b \<and> map_of b name = None
          \<longrightarrow> snd (cancelDebounce obj name v) = v)
    \<and> (\<forall>b p. registeredDebounces v obj = Some b \<and> map_of b name = Some p
          \<longrightarrow> registeredDebounces (snd (cancelDebounce obj name v))
                = (registeredDebounces v)(obj \<mapsto> AList.delete name b)
            \<and> timers (snd (cancelDebounce obj name v))
                = filter (\<lambda>t. tm_token t \<noteq> cancelId p) (timers v))
    \<and> pending_for obj name w' = [] \<and> entry w' obj name = None"
proof -
  have a: "fst (cancelDebounce obj name v) = None" by (rule cancelDebounce_frame(1))
  have b: "registeredDebounces v obj = None \<longrightarrow> snd (cancelDebounce obj name v) = v"
    by (simp add: cancelDebounce_def)
  have c: "\<forall>b. registeredDebounces v obj = Some b \<and> map_of b name = None
          \<longrightarrow> snd (cancelDebounce obj name v) = v"
    by (simp add: cancelDebounce_plain [OF pl] entry_def the_blob_def)
  have d: "\<forall>b p. registeredDebounces v obj = Some b \<and> map_of b name = Some p
          \<longrightarrow> registeredDebounces (snd (cancelDebounce obj name v))
                = (registeredDebounces v)(obj \<mapsto> AList.delete name b)
            \<and> timers (snd (cancelDebounce obj name v))
                = filter (\<lambda>t. tm_token t \<noteq> cancelId p) (timers v)"
    by (simp add: cancelDebounce_plain [OF pl] entry_def the_blob_def delete_pending_def)
  have wf: "wf_debounce (run P (replicate n (Call (CancelDebounce obj name))) w)"
    unfolding w_def by (intro wf_debounce_run wf_debounce_reachable)
  have e: "pending_for obj name w' = [] \<and> entry w' obj name = None"
    unfolding w'_def run_replicate_Suc using cancelDebounce_clears [OF wf pl] by simp
  from a b c d e show ?thesis by blast
qed

lemma cancelDebounce_idempotent_plain_instance:
  "timers (snd (cancelDebounce 0 ''save''
        (run app [Call (DebounceTask 0 (Str ''save'') [Num 1] 100)] (module_init ReadsPassive)))) = []
   \<and> pending_for 0 ''save'' (run app (replicate 3 (Call (CancelDebounce 0 ''save'')))
        (run app [Call (DebounceTask 0 (Str ''save'') [Num 1] 100)] (module_init ReadsPassive))) = []"
proof -
  define v where "v = run app [Call (DebounceTask 0 (Str ''save'') [Num 1] 100)] (module_init ReadsPassive)"
  have fn: "typeof_function (app 0 ''save'')" by (simp add: app_def)
  have i: "\<not> isDestroyed (module_init ReadsPassive) 0" by (simp add: module_init_def)
  have e: "entry (module_init ReadsPassive) 0 ''save'' = None"
    by (simp add: module_init_def entry_def the_blob_def)
  have t: "the_task (module_init ReadsPassive) 0 ''save'' = Some (Closure 0 0 ''save'')"
    by (simp add: the_task_plain [OF plain_save(1)] e) (simp add: module_init_def)
  have en: "entry v 0 ''save'' = Some \<lparr> debouncedTask = Some (Closure 0 0 ''save''), cancelId = 0 \<rparr>"
    using debounceTask_plain(2) [where P = app and a = "[Num 1]" and d = 100
        and obj' = 0 and name' = "''save''", OF fn i plain_save(1)]
    by (simp add: v_def t) (simp add: module_init_def)
  have tm: "timers v = [\<lparr> tm_token = 0, tm_target = 0, tm_method = Some (Closure 0 0 ''save''),
        tm_args = [Num 1], tm_due = 100 \<rparr>]"
    using debounceTask_fields(1) [where P = app and a = "[Num 1]" and d = 100, OF fn i]
    by (simp add: v_def t) (simp add: module_init_def)
  from en obtain b where b: "registeredDebounces v 0 = Some b"
    "map_of b ''save'' = Some \<lparr> debouncedTask = Some (Closure 0 0 ''save''), cancelId = 0 \<rparr>"
    by (auto simp: entry_def the_blob_def split: option.splits)
  have three: "replicate 3 (Call (CancelDebounce 0 ''save''))
      = replicate (Suc 2) (Call (CancelDebounce 0 ''save''))" by (simp add: numeral_3_eq_3)
  from cancelDebounce_idempotent_plain [where P = app
      and es = "[Call (DebounceTask 0 (Str ''save'') [Num 1] 100)]"
      and h = ReadsPassive and v = v and obj = 0 and name = "''save''" and n = 2,
      folded v_def, OF plain_save(1)]
  have "timers (snd (cancelDebounce 0 ''save'' v))
          = filter (\<lambda>t. tm_token t \<noteq> 0) (timers v)"
    and "pending_for 0 ''save'' (run app (replicate (Suc 2) (Call (CancelDebounce 0 ''save''))) v) = []"
    using b by auto
  with tm show ?thesis unfolding v_def [symmetric] three by simp
qed

subsection \<open>The name \<open>size\<close>\<close>

text \<open>
  On a blob whose prototype is \<^verbatim>\<open>Map.prototype\<close> and that has no own property \<^verbatim>\<open>size\<close>, a
  call of \<open>debounceTask\<close> for the name \<^verbatim>\<open>size\<close> reads the number 0 at line 81, builds a wrapper
  and hands it to the run loop, and throws at line 96 without having stored an entry. A
  call of \<open>cancelDebounce\<close> for the name reads the number 0, which is not \<^verbatim>\<open>undefined\<close>,
  finds no token in it and no own property to delete, and leaves the state as it was.
\<close>

lemma the_task_size:
  assumes "entry w obj ''size'' = None" and "the_prototype w obj = Map_prototype"
  shows "the_property w obj ''size'' = BNumber 0"
    and "the_task w obj ''size'' = Some (Closure (next_fn w) obj ''size'')"
proof -
  from assms show "the_property w obj ''size'' = BNumber 0"
    by (simp add: the_property_def get_property_def entry_def)
  then show "the_task w obj ''size'' = Some (Closure (next_fn w) obj ''size'')"
    by (simp add: the_task_def)
qed

lemma debounceTask_size:
  fixes a :: "jsval list" and d :: nat
  assumes "typeof_function (P obj ''size'')" and "\<not> isDestroyed w obj"
    and "entry w obj ''size'' = None" and "the_prototype w obj = Map_prototype"
  defines "w' \<equiv> snd (debounceTask P obj (Str ''size'') a d w)"
  shows "fst (debounceTask P obj (Str ''size'') a d w) = Some TypeError"
    and "entry w' obj ''size'' = None"
    and "the_prototype w' obj = Map_prototype"
    and "next_fn w' = Suc (next_fn w)"
    and "timers w' =
           filter (\<lambda>t. \<not> (tm_target t = obj \<and> tm_method t = Some (Closure (next_fn w) obj ''size'')))
             (timers w)
           @ [\<lparr> tm_token = next_timer w, tm_target = obj,
                tm_method = Some (Closure (next_fn w) obj ''size''),
                tm_args = a, tm_due = now w + d \<rparr>]"
    and "registeredDebounces w' obj = Some (the_blob w obj)"
proof -
  note s = the_task_size [OF assms(3,4)]
  note f = debounceTask_fields [where P = P and a = a and d = d, OF assms(1,2), folded w'_def]
  show "fst (debounceTask P obj (Str ''size'') a d w) = Some TypeError"
    using assms(3,4) by (simp add: f)
  show "entry w' obj ''size'' = None" using assms(3,4) by (simp add: f)
  show "the_prototype w' obj = Map_prototype"
    using assms(4) by (simp add: the_prototype_def f split: option.splits)
  show "next_fn w' = Suc (next_fn w)" by (simp add: f s)
  show "registeredDebounces w' obj = Some (the_blob w obj)" using assms(3,4) by (simp add: f)
  show "timers w' =
           filter (\<lambda>t. \<not> (tm_target t = obj \<and> tm_method t = Some (Closure (next_fn w) obj ''size'')))
             (timers w)
           @ [\<lparr> tm_token = next_timer w, tm_target = obj,
                tm_method = Some (Closure (next_fn w) obj ''size''),
                tm_args = a, tm_due = now w + d \<rparr>]"
    by (simp add: f s)
qed

lemma delete_pending_absent:
  "entry w obj name = None \<Longrightarrow> delete_pending obj name w = w"
  by (auto simp: delete_pending_def entry_def the_blob_def delete_notin_dom
        map_of_eq_None_iff fun_upd_idem split: option.splits)

lemma cancelDebounce_size:
  assumes "entry w obj ''size'' = None" and "the_prototype w obj = Map_prototype"
  shows "cancelDebounce obj ''size'' w = (None, w)"
  using assms
  by (simp add: cancelDebounce_unfold the_task_size(1) delete_pending_absent)

text \<open>
  For the name of a function that the prototype chain of a map provides, and without an
  own entry, \<open>cancelDebounce\<close> does not return at line 138: it goes on to delete the
  property, which does nothing, and to call \<^verbatim>\<open>cancel(undefined)\<close>.
\<close>

lemma cancelDebounce_inherited_method:
  assumes "registeredDebounces w obj \<noteq> None" and "entry w obj name = None"
    and "the_prototype w obj = Map_prototype"
    and "name \<in> set Map_prototype_methods \<or> name \<in> set Object_prototype_methods"
  shows "cancelDebounce obj name w = (None, delete_pending obj name (cancel None w))"
    and "cancelDebounce obj name w = (None, w)"
  using assms the_task_inherited_method(1) [OF assms(2,3,4)]
  by (auto simp: cancelDebounce_unfold delete_pending_absent)

text \<open>
  C3. The claim is right and the code is wrong, by the defect of C1: the blob is a \<^verbatim>\<open>Map\<close>
  that is read and written as a plain object. For an owner whose \<^verbatim>\<open>size\<close> is a function,
  \<^verbatim>\<open>debounceTask(obj, 'size', 1, 100)\<close> hands a wrapper to the run loop and throws at line 96,
  as \<^verbatim>\<open>Map.prototype.size\<close> has no setter, so that no entry is stored. Two calls
  \<^verbatim>\<open>cancelDebounce(obj, 'size')\<close> then do not raise, but they cancel nothing: at line 138 the
  read gives 0, not \<^verbatim>\<open>undefined\<close>, line 142 finds no token in it, and \<^verbatim>\<open>cancel(undefined)\<close>
  is called. The invocation is still pending for the owner and the name, where the claim
  has none, and once the wait has elapsed the task is invoked.
\<close>

theorem cancelDebounce_leaves_size_pending:
  fixes v w :: world
  defines "v \<equiv> run app [Call (DebounceTask 0 (Str ''size'') [Num 1] 100)] (module_init ReadsPassive)"
  defines "w \<equiv> run app [Call (CancelDebounce 0 ''size''), Call (CancelDebounce 0 ''size'')] v"
  shows "typeof_function (app 0 ''size'')
    \<and> fst (debounceTask app 0 (Str ''size'') [Num 1] 100 (module_init ReadsPassive))
        = Some TypeError
    \<and> registeredDebounces v 0 = Some []
    \<and> fst (cancelDebounce 0 ''size'' v) = None
    \<and> entry w 0 ''size'' = None
    \<and> pending_for 0 ''size'' w
        = [\<lparr> tm_token = 0, tm_target = 0, tm_method = Some (Closure 0 0 ''size''),
             tm_args = [Num 1], tm_due = 100 \<rparr>]
    \<and> invocations (run app [Elapse 100, Fire 0] w) = [(0, ''size'', [Num 1])]"
proof -
  have fn: "typeof_function (app 0 ''size'')" by (simp add: app_def)
  have i: "\<not> isDestroyed (module_init ReadsPassive) 0"
    "entry (module_init ReadsPassive) 0 ''size'' = None"
    "the_prototype (module_init ReadsPassive) 0 = Map_prototype"
    by (simp_all add: module_init_def entry_def the_blob_def the_prototype_def)
  note s = debounceTask_size [where P = app and a = "[Num 1]" and d = 100, OF fn i]
  have v: "v = snd (debounceTask app 0 (Str ''size'') [Num 1] 100 (module_init ReadsPassive))"
    by (simp add: v_def)
  have fv: "entry v 0 ''size'' = None" "the_prototype v 0 = Map_prototype"
    "timers v = [\<lparr> tm_token = 0, tm_target = 0, tm_method = Some (Closure 0 0 ''size''),
             tm_args = [Num 1], tm_due = 100 \<rparr>]"
    "invocations v = []" "now v = 0"
    unfolding v using s by (simp_all add: debounceTask_frame) (simp_all add: module_init_def)
  have r: "registeredDebounces v 0 = Some []"
    unfolding v s(6) by (simp add: the_blob_def module_init_def)
  have c: "cancelDebounce 0 ''size'' v = (None, v)" by (rule cancelDebounce_size [OF fv(1,2)])
  then have w: "w = v" by (simp add: w_def)
  have p: "pending_for 0 ''size'' v
        = [\<lparr> tm_token = 0, tm_target = 0, tm_method = Some (Closure 0 0 ''size''),
             tm_args = [Num 1], tm_due = 100 \<rparr>]"
    by (simp add: pending_for_def fv)
  have "find (\<lambda>t. tm_token t = 0 \<and> tm_due t \<le> now (elapse 100 v)) (timers (elapse 100 v))
      = Some \<lparr> tm_token = 0, tm_target = 0, tm_method = Some (Closure 0 0 ''size''),
               tm_args = [Num 1], tm_due = 100 \<rparr>"
    by (simp add: fv)
  from fire_unfold(1) [OF this, where f = "Closure 0 0 ''size''" and P = app]
  have "fire app 0 (elapse 100 v)
      = call_debouncedTask app (Closure 0 0 ''size'') [Num 1] (cancel (Some 0) (elapse 100 v))"
    by simp
  then have "invocations (snd (fire app 0 (elapse 100 v)))
      = invocations (cancel (Some 0) (elapse 100 v)) @ [(0, ''size'', [Num 1])]"
    by (simp only: call_debouncedTask_invocations [where P = app and obj = 0
          and name = "''size''", OF fn])
  then have "invocations (snd (fire app 0 (elapse 100 v))) = [(0, ''size'', [Num 1])]"
    by (simp add: fv)
  with fn s(1) r c p fv(1) show ?thesis unfolding w by simp
qed

subsection \<open>The wrapper\<close>

lemma exec_cmd_next_fn: "next_fn w \<le> next_fn (snd (exec_cmd P c w))"
proof (cases c)
  case (DebounceTask obj name a d)
  show ?thesis
  proof (cases "typeof_string name \<and> typeof_function (P obj (string_of name)) \<and> \<not> isDestroyed w obj")
    case False
    then show ?thesis by (simp add: DebounceTask debounceTask_failure(1))
  next
    case True
    then obtain n where n: "name = Str n" by (cases name) auto
    with True have ok: "typeof_function (P obj n)" "\<not> isDestroyed w obj" by auto
    show ?thesis
      by (simp add: DebounceTask n debounceTask_fields(3) [where P = P, OF ok])
  qed
next
  case (CancelDebounce obj name)
  then show ?thesis by (simp add: cancelDebounce_frame)
next
  case (AddEventListener obj el ev cb op)
  then show ?thesis by (simp add: addEventListener_frame)
next
  case (RemoveEventListener obj el ev cb op)
  then show ?thesis by (simp add: removeEventListener_frame)
next
  case (RunDisposables obj)
  then show ?thesis by (simp add: runDisposables_frame)
qed

lemma exec_cmds_next_fn: "next_fn w \<le> next_fn (snd (exec_cmds P cs w))"
proof (induction cs arbitrary: w)
  case Nil
  show ?case by simp
next
  case (Cons c cs)
  from Cons [of "snd (exec_cmd P c w)"] exec_cmd_next_fn [of w P c] show ?case
    by (cases "exec_cmd P c w") (auto split: option.splits)
qed

lemma exec_cmds_append:
  "exec_cmds P pre w = (None, v) \<Longrightarrow> exec_cmds P (pre @ cs) w = exec_cmds P cs v"
proof (induction pre arbitrary: w)
  case Nil
  then show ?case by simp
next
  case (Cons c pre)
  then show ?case by (cases "exec_cmd P c w") (auto split: option.splits)
qed

text \<open>
  For every plain name the wrapper does what is claimed. When the run loop fires a
  wrapper built for \<open>(obj, name)\<close>, the task of the owner runs in the state \<open>w1\<close> in which
  the entry of the name is already deleted and nothing is pending for the pair.
\<close>

lemma wrapper_deletes_entry_first_plain:
  fixes P :: program and es :: "event list" and h :: host and tok i :: nat
    and obj :: owner and name :: string and t :: timer
  defines "w \<equiv> run P es (module_init h)"
  defines "w1 \<equiv> invoke obj name (tm_args t) (delete_pending obj name (cancel (Some tok) w))"
  assumes fired: "find (\<lambda>t. tm_token t = tok \<and> tm_due t \<le> now w) (timers w) = Some t"
    and wrapper: "tm_method t = Some (Closure i obj name)"
    and task: "P obj name = Method body"
    and pl: "plain name"
  shows "fire P tok w = exec_cmds P (body (tm_args t)) w1"
    and "entry w1 obj name = None"
    and "pending_for obj name w1 = []"
    and "wf_debounce w1"
    and "i < next_fn w1"
    and "isDestroyed w1 = isDestroyed w"
proof -
  have wf: "wf_debounce w" unfolding w_def by (rule wf_debounce_reachable)
  from find_timer [OF fired] have t: "t \<in> set (timers w)" "tm_token t = tok" by auto
  note s = wf_debounce_start_task [OF wf t(1) wrapper, unfolded t(2)]
  show "fire P tok w = exec_cmds P (body (tm_args t)) w1"
    by (simp add: fire_unfold(1) [OF fired wrapper] task w1_def)
  show "entry w1 obj name = None" using s(3) by (simp add: w1_def)
  show "pending_for obj name w1 = []" using s(2) [OF pl] by (simp add: w1_def pending_for_def)
  show "wf_debounce w1" unfolding w1_def using s(1) by (rule wf_debounce_invoke)
  show "i < next_fn w1" using s(4) by (simp add: w1_def)
  show "isDestroyed w1 = isDestroyed w" by (simp add: w1_def)
qed

text \<open>
  If the task then debounces the same name again, at a moment \<open>v\<close> of its run at which the
  name has no entry (which is so unless the task has already done so before), this
  builds a wrapper of its own, different from the one being finalized, and stores it in
  a fresh entry with the new token; that is then the only invocation pending for the
  pair.
\<close>

lemma reregistration_is_fresh:
  fixes P :: program and es :: "event list" and h :: host and tok i :: nat
    and obj :: owner and name :: string and t :: timer
    and a :: "jsval list" and d :: nat and v :: world
  defines "w \<equiv> run P es (module_init h)"
  defines "w1 \<equiv> invoke obj name (tm_args t) (delete_pending obj name (cancel (Some tok) w))"
  defines "w2 \<equiv> snd (debounceTask P obj (Str name) a d v)"
  assumes fired: "find (\<lambda>t. tm_token t = tok \<and> tm_due t \<le> now w) (timers w) = Some t"
    and wrapper: "tm_method t = Some (Closure i obj name)"
    and task: "P obj name = Method body"
    and pl: "plain name"
    and alive: "\<not> isDestroyed w obj"
    and body: "body (tm_args t) = pre @ DebounceTask obj (Str name) a d # rest"
    and pre: "exec_cmds P pre w1 = (None, v)"
    and absent: "entry v obj name = None"
  shows "fire P tok w = exec_cmds P rest w2"
    and "entry w2 obj name =
           Some \<lparr> debouncedTask = Some (Closure (next_fn v) obj name), cancelId = next_timer v \<rparr>"
    and "Some (Closure (next_fn v) obj name) \<noteq> tm_method t"
    and "pending_for obj name w2 =
           [\<lparr> tm_token = next_timer v, tm_target = obj,
              tm_method = Some (Closure (next_fn v) obj name), tm_args = a,
              tm_due = now v + d \<rparr>]"
proof -
  note s = wrapper_deletes_entry_first_plain [where P = P and es = es and h = h,
      folded w_def, OF fired wrapper task pl, folded w1_def]
  have v: "v = snd (exec_cmds P pre w1)" by (simp add: pre)
  have wfv: "wf_debounce v" unfolding v using s(4) by (rule wf_debounce_exec_cmds)
  have fn: "typeof_function (P obj name)" by (simp add: task)
  have al: "\<not> isDestroyed v obj" using alive by (simp add: v exec_cmds_frame s(6))
  have tt: "the_task v obj name = Some (Closure (next_fn v) obj name)"
    by (simp add: the_task_plain [OF pl] absent)
  have ok: "fst (debounceTask P obj (Str name) a d v) = None"
    by (rule debounceTask_plain(1) [where P = P, OF fn al pl])
  have "exec_cmds P (body (tm_args t)) w1
      = exec_cmds P (DebounceTask obj (Str name) a d # rest) v"
    unfolding body using pre by (rule exec_cmds_append)
  then show "fire P tok w = exec_cmds P rest w2"
    using ok by (cases "debounceTask P obj (Str name) a d v") (simp add: s(1) w2_def)
  show "entry w2 obj name =
      Some \<lparr> debouncedTask = Some (Closure (next_fn v) obj name), cancelId = next_timer v \<rparr>"
    unfolding w2_def by (simp add: debounceTask_plain(2) [where P = P, OF fn al pl] tt)
  have "next_fn w1 \<le> next_fn v" unfolding v by (rule exec_cmds_next_fn)
  with s(5) show "Some (Closure (next_fn v) obj name) \<noteq> tm_method t" by (simp add: wrapper)
  show "pending_for obj name w2 =
      [\<lparr> tm_token = next_timer v, tm_target = obj,
         tm_method = Some (Closure (next_fn v) obj name), tm_args = a,
         tm_due = now v + d \<rparr>]"
    unfolding w2_def
    by (simp add: pending_for_debounceTask [where P = P, OF wfv fn al pl] tt)
qed

lemma reregistration_is_fresh_instance:
  "entry (snd (fire app 0
        (run app [Call (DebounceTask 0 (Str ''again'') [Num 7] 10), Elapse 10]
           (module_init ReadsPassive)))) 0 ''again''
     = Some \<lparr> debouncedTask = Some (Closure 1 0 ''again''), cancelId = 1 \<rparr>"
proof -
  define w where "w = run app [Call (DebounceTask 0 (Str ''again'') [Num 7] 10), Elapse 10]
                     (module_init ReadsPassive)"
  define t where "t = \<lparr> tm_token = 0, tm_target = 0, tm_method = Some (Closure 0 0 ''again''),
              tm_args = [Num 7], tm_due = (10::nat) \<rparr>"
  define w1 where "w1 = invoke 0 ''again'' (tm_args t) (delete_pending 0 ''again'' (cancel (Some 0) w))"
  have fn: "typeof_function (app 0 ''again'')" by (simp add: app_def)
  have i: "\<not> isDestroyed (module_init ReadsPassive) 0"
    "entry (module_init ReadsPassive) 0 ''again'' = None"
    by (simp_all add: module_init_def entry_def the_blob_def)
  have tt: "the_task (module_init ReadsPassive) 0 ''again'' = Some (Closure 0 0 ''again'')"
    by (simp add: the_task_plain [OF plain_save(2)] i) (simp add: module_init_def)
  note f = debounceTask_fields(1,2) [where P = app and a = "[Num 7]" and d = 10, OF fn i(1)]
    debounceTask_plain(3) [where P = app and a = "[Num 7]" and d = 10, OF fn i(1) plain_save(2)]
  have fields: "timers w = [t]" "now w = 10" "next_fn w = 1" "next_timer w = 1"
    "\<not> isDestroyed w 0"
    by (simp_all add: w_def t_def f tt i debounceTask_frame) (simp_all add: module_init_def)
  have fired: "find (\<lambda>t. tm_token t = 0 \<and> tm_due t \<le> now w) (timers w) = Some t"
    by (simp add: fields) (simp add: t_def)
  have wrapper: "tm_method t = Some (Closure 0 0 ''again'')" by (simp add: t_def)
  have task: "app 0 ''again'' = Method (\<lambda>args. [DebounceTask 0 (Str ''again'') args 50])"
    by (simp add: app_def)
  have body: "(\<lambda>args. [DebounceTask 0 (Str ''again'') args 50]) (tm_args t)
      = [] @ DebounceTask 0 (Str ''again'') [Num 7] 50 # []" by (simp add: t_def)
  have pre: "exec_cmds app [] w1 = (None, w1)" by simp
  have absent: "entry w1 0 ''again'' = None" by (simp add: w1_def entry_delete_pending)
  have n1: "next_fn w1 = 1" "next_timer w1 = 1" by (simp_all add: w1_def fields)
  from reregistration_is_fresh(1,2) [where P = app and h = ReadsPassive and tok = 0 and i = 0
      and es = "[Call (DebounceTask 0 (Str ''again'') [Num 7] 10), Elapse 10]"
      and obj = 0 and name = "''again''" and t = t and a = "[Num 7]" and d = 50 and rest = "[]"
      and pre = "[]" and v = w1,
      folded w_def, folded w1_def, OF fired wrapper task plain_save(2) fields(5) body pre absent]
  have "fire app 0 w = exec_cmds app []
          (snd (debounceTask app 0 (Str ''again'') [Num 7] 50 w1))"
    and "entry (snd (debounceTask app 0 (Str ''again'') [Num 7] 50 w1)) 0 ''again''
         = Some \<lparr> debouncedTask = Some (Closure (next_fn w1) 0 ''again''), cancelId = next_timer w1 \<rparr>"
    by simp_all
  then show ?thesis unfolding w_def [symmetric] by (simp add: n1)
qed

text \<open>
  C8. The claim is right and the code is wrong, by the defect of C1: the blob is a \<^verbatim>\<open>Map\<close>
  that is read and written as a plain object. For the name \<^verbatim>\<open>toString\<close>, which the blob
  inherits, no wrapper is built: what the run loop fires is \<^verbatim>\<open>undefined\<close>, which throws;
  the entry of the name is not deleted and the task of the owner is not invoked. For the
  name \<^verbatim>\<open>size\<close> a wrapper is built and, when fired, invokes the task of the owner; the task
  debounces the name \<^verbatim>\<open>size\<close> again, and this call hands a new wrapper to the run loop and
  then throws at line 96, so that no fresh entry is created and the new invocation is
  pending without an entry.
\<close>

theorem wrapper_fails_for_inherited_names:
  fixes u v :: world
  defines "u \<equiv> run app [Call (DebounceTask 0 (Str ''toString'') [Num 7] 10), Elapse 10]
                  (module_init ReadsPassive)"
  defines "v \<equiv> run app [Call (DebounceTask 0 (Str ''size'') [Num 7] 10), Elapse 10]
                  (module_init ReadsPassive)"
  shows "typeof_function (app 0 ''toString'')
    \<and> timers u = [\<lparr> tm_token = 0, tm_target = 0, tm_method = None,
                     tm_args = [Num 7], tm_due = 10 \<rparr>]
    \<and> fst (fire app 0 u) = Some TypeError
    \<and> invocations (snd (fire app 0 u)) = []
    \<and> entry (snd (fire app 0 u)) 0 ''toString'' = Some \<lparr> debouncedTask = None, cancelId = 0 \<rparr>
    \<and> app 0 ''size'' = Method (\<lambda>args. [DebounceTask 0 (Str ''size'') args 50])
    \<and> timers v = [\<lparr> tm_token = 0, tm_target = 0, tm_method = Some (Closure 0 0 ''size''),
                     tm_args = [Num 7], tm_due = 10 \<rparr>]
    \<and> fst (fire app 0 v) = Some TypeError
    \<and> invocations (snd (fire app 0 v)) = [(0, ''size'', [Num 7])]
    \<and> entry (snd (fire app 0 v)) 0 ''size'' = None
    \<and> timers (snd (fire app 0 v))
        = [\<lparr> tm_token = 1, tm_target = 0, tm_method = Some (Closure 1 0 ''size''),
             tm_args = [Num 7], tm_due = 60 \<rparr>]"
proof -
  have fn: "typeof_function (app 0 ''toString'')" "typeof_function (app 0 ''size'')"
    by (simp_all add: app_def)
  have task: "app 0 ''size'' = Method (\<lambda>args. [DebounceTask 0 (Str ''size'') args 50])"
    by (simp add: app_def)
  have i: "\<not> isDestroyed (module_init ReadsPassive) 0"
    "entry (module_init ReadsPassive) 0 ''toString'' = None"
    "the_prototype (module_init ReadsPassive) 0 = Map_prototype"
    "''toString'' \<in> set Map_prototype_methods \<or> ''toString'' \<in> set Object_prototype_methods"
    "entry (module_init ReadsPassive) 0 ''size'' = None"
    by (simp_all add: module_init_def entry_def the_blob_def the_prototype_def
        Object_prototype_methods_def)
  note s = debounceTask_inherited_method [where P = app and a = "[Num 7]" and d = 10,
      OF fn(1) i(1,2,3,4)]
  have fu: "timers u = [\<lparr> tm_token = 0, tm_target = 0, tm_method = None,
                     tm_args = [Num 7], tm_due = 10 \<rparr>]"
    "entry u 0 ''toString'' = Some \<lparr> debouncedTask = None, cancelId = 0 \<rparr>"
    "invocations u = []" "now u = 10"
    using s by (simp_all add: u_def debounceTask_frame) (simp_all add: module_init_def)
  have "find (\<lambda>t. tm_token t = 0 \<and> tm_due t \<le> now u) (timers u)
      = Some \<lparr> tm_token = 0, tm_target = 0, tm_method = None, tm_args = [Num 7], tm_due = 10 \<rparr>"
    by (simp add: fu)
  from fire_unfold(2) [OF this, where P = app]
  have a: "fire app 0 u = (Some TypeError, cancel (Some 0) u)" by simp
  note z = debounceTask_size [where P = app and a = "[Num 7]" and d = 10, OF fn(2) i(1,5,3)]
  have fv: "timers v = [\<lparr> tm_token = 0, tm_target = 0, tm_method = Some (Closure 0 0 ''size''),
                     tm_args = [Num 7], tm_due = 10 \<rparr>]"
    "entry v 0 ''size'' = None" "the_prototype v 0 = Map_prototype"
    "invocations v = []" "now v = 10" "next_fn v = 1" "next_timer v = 1" "\<not> isDestroyed v 0"
    using z i(1)
      debounceTask_fields(2) [where P = app and a = "[Num 7]" and d = 10, OF fn(2) i(1)]
    by (simp_all add: v_def debounceTask_frame) (simp_all add: module_init_def)
  define v1 where "v1 = invoke 0 ''size'' [Num 7] (delete_pending 0 ''size'' (cancel (Some 0) v))"
  have "find (\<lambda>t. tm_token t = 0 \<and> tm_due t \<le> now v) (timers v)
      = Some \<lparr> tm_token = 0, tm_target = 0, tm_method = Some (Closure 0 0 ''size''),
               tm_args = [Num 7], tm_due = 10 \<rparr>"
    by (simp add: fv)
  from fire_unfold(1) [OF this, where f = "Closure 0 0 ''size''" and P = app]
  have "fire app 0 v = exec_cmds app [DebounceTask 0 (Str ''size'') [Num 7] 50] v1"
    by (simp add: task v1_def del: exec_cmds.simps)
  then have b: "fire app 0 v = (case debounceTask app 0 (Str ''size'') [Num 7] 50 v1 of
        (Some e, w') \<Rightarrow> (Some e, w') | (None, w') \<Rightarrow> (None, w'))"
    by (simp split: prod.splits option.splits)
  have f1: "entry v1 0 ''size'' = None" "the_prototype v1 0 = Map_prototype"
    "\<not> isDestroyed v1 0" "timers v1 = []" "next_fn v1 = 1" "next_timer v1 = 1" "now v1 = 10"
    "invocations v1 = [(0, ''size'', [Num 7])]"
    using fv by (simp_all add: v1_def entry_delete_pending)
  note y = debounceTask_size [where P = app and a = "[Num 7]" and d = 50, OF fn(2) f1(3,1,2)]
  from y(1) have c: "fire app 0 v
      = (Some TypeError, snd (debounceTask app 0 (Str ''size'') [Num 7] 50 v1))"
    unfolding b by (cases "debounceTask app 0 (Str ''size'') [Num 7] 50 v1") simp
  from fn(1) task fu fv(1) y(2,5) f1 show ?thesis
    unfolding a c by (simp add: debounceTask_frame)
qed

subsection \<open>The teardown of the debounces\<close>

lemma cancel_names_result:
  assumes "set ns \<subseteq> fst ` set b"
  shows "cancel_names b proto ns w =
     (None, w\<lparr> timers := filter (\<lambda>t. \<forall>n \<in> set ns. \<forall>p. map_of b n = Some p
                                    \<longrightarrow> tm_token t \<noteq> cancelId p) (timers w) \<rparr>)"
  using assms
proof (induction ns arbitrary: w)
  case Nil
  then show ?case by simp
next
  case (Cons n ns)
  from Cons.prems obtain p where p: "map_of b n = Some p"
    by (cases "map_of b n") (auto simp: map_of_eq_None_iff)
  then have g: "get_property b proto n = BEntry p" by (rule get_property_own)
  from Cons.prems have "set ns \<subseteq> fst ` set b" by simp
  from Cons.IH [OF this, of "cancel (Some (cancelId p)) w"] p show ?case
    by (auto simp: g cancel.simps intro!: filter_cong)
qed

text \<open>
  C4, as amended. The teardown closure of the debounces cancels the token of every entry
  of the blob of the owner and changes nothing else: the blob keeps its entries. With an
  empty blob, or without a blob, it leaves the state as it was.
\<close>

theorem debounces_teardown_cancels:
  "(registeredDebounces w obj = None \<longrightarrow> getDebouncesDisposable obj w = (None, w))
   \<and> (registeredDebounces w obj = Some [] \<longrightarrow> getDebouncesDisposable obj w = (None, w))
   \<and> (\<forall>b. registeredDebounces w obj = Some b \<longrightarrow>
          getDebouncesDisposable obj w =
            (None, w\<lparr> timers := filter (\<lambda>t. \<forall>n p. map_of b n = Some p
                                          \<longrightarrow> tm_token t \<noteq> cancelId p) (timers w) \<rparr>)
          \<and> registeredDebounces (snd (getDebouncesDisposable obj w)) obj = Some b)"
proof -
  have "getDebouncesDisposable obj w =
            (None, w\<lparr> timers := filter (\<lambda>t. \<forall>n p. map_of b n = Some p
                                          \<longrightarrow> tm_token t \<noteq> cancelId p) (timers w) \<rparr>)"
    if b: "registeredDebounces w obj = Some b" for b
  proof (cases "b = []")
    case True
    with b show ?thesis by (simp add: getDebouncesDisposable_def)
  next
    case False
    have eq: "(\<lambda>t. \<forall>n \<in> set (map fst b). \<forall>p. map_of b n = Some p \<longrightarrow> tm_token t \<noteq> cancelId p)
        = (\<lambda>t. \<forall>n p. map_of b n = Some p \<longrightarrow> tm_token t \<noteq> cancelId p)"
    proof (rule ext)
      fix t
      have "n \<in> set (map fst b)" if "map_of b n = Some p" for n p
        using map_of_SomeD [OF that] by (force simp: image_iff)
      then show "(\<forall>n \<in> set (map fst b). \<forall>p. map_of b n = Some p \<longrightarrow> tm_token t \<noteq> cancelId p)
        = (\<forall>n p. map_of b n = Some p \<longrightarrow> tm_token t \<noteq> cancelId p)"
        by blast
    qed
    have "cancel_names b (blob_prototype w obj) (map fst b) w =
       (None, w\<lparr> timers := filter (\<lambda>t. \<forall>n \<in> set (map fst b). \<forall>p. map_of b n = Some p
                                    \<longrightarrow> tm_token t \<noteq> cancelId p) (timers w) \<rparr>)"
      by (rule cancel_names_result) simp
    then have "cancel_names b (blob_prototype w obj) (map fst b) w =
       (None, w\<lparr> timers := filter (\<lambda>t. \<forall>n p. map_of b n = Some p
                                    \<longrightarrow> tm_token t \<noteq> cancelId p) (timers w) \<rparr>)"
      by (simp only: eq)
    with False b show ?thesis
      by (simp add: getDebouncesDisposable_def Let_def)
  qed
  then show ?thesis by (auto simp: getDebouncesDisposable_def)
qed

theorem debounces_teardown_cancels_witness:
  "registeredDebounces (snd (debounceTask app 0 (Str ''save'') [] 100 (module_init ReadsPassive))) 0
      = Some [(''save'', \<lparr> debouncedTask = Some (Closure 0 0 ''save''), cancelId = 0 \<rparr>)]
   \<and> timers (snd (getDebouncesDisposable 0
        (snd (debounceTask app 0 (Str ''save'') [] 100 (module_init ReadsPassive))))) = []
   \<and> registeredDebounces (snd (getDebouncesDisposable 0
        (snd (debounceTask app 0 (Str ''save'') [] 100 (module_init ReadsPassive))))) 0
      = Some [(''save'', \<lparr> debouncedTask = Some (Closure 0 0 ''save''), cancelId = 0 \<rparr>)]"
proof -
  define w where "w = snd (debounceTask app 0 (Str ''save'') [] 100 (module_init ReadsPassive))"
  have fn: "typeof_function (app 0 ''save'')" by (simp add: app_def)
  have i: "\<not> isDestroyed (module_init ReadsPassive) 0"
    "entry (module_init ReadsPassive) 0 ''save'' = None"
    by (simp_all add: module_init_def entry_def the_blob_def)
  have tt: "the_task (module_init ReadsPassive) 0 ''save'' = Some (Closure 0 0 ''save'')"
    by (simp add: the_task_plain [OF plain_save(1)] i) (simp add: module_init_def)
  have r: "registeredDebounces w 0
      = Some [(''save'', \<lparr> debouncedTask = Some (Closure 0 0 ''save''), cancelId = 0 \<rparr>)]"
    and t: "timers w = [\<lparr> tm_token = 0, tm_target = 0, tm_method = Some (Closure 0 0 ''save''),
        tm_args = [], tm_due = 100 \<rparr>]"
    using plain_save(1)
    by (simp_all add: w_def debounceTask_fields [where P = app, OF fn i(1)] tt i)
       (simp_all add: module_init_def the_blob_def)
  from debounces_teardown_cancels [of w 0] r
  have "getDebouncesDisposable 0 w =
      (None, w\<lparr> timers := filter (\<lambda>t. \<forall>n p.
          map_of [(''save'', \<lparr> debouncedTask = Some (Closure 0 0 ''save''), cancelId = 0 \<rparr>)] n = Some p
            \<longrightarrow> tm_token t \<noteq> cancelId p) (timers w) \<rparr>)"
    by blast
  with r t show ?thesis unfolding w_def [symmetric] by simp
qed

text \<open>
  C4 as stated fails: after the teardown closure has run, the blob of the owner still holds
  the entry of the debounced task.
\<close>

theorem debounces_teardown_keeps_blob:
  "the_blob (snd (getDebouncesDisposable 0
      (snd (debounceTask app 0 (Str ''save'') [] 100 (module_init ReadsPassive))))) 0
    = [(''save'', \<lparr> debouncedTask = Some (Closure 0 0 ''save''), cancelId = 0 \<rparr>)]
   \<and> the_blob (snd (getDebouncesDisposable 0
      (snd (debounceTask app 0 (Str ''save'') [] 100 (module_init ReadsPassive))))) 0 \<noteq> []"
proof -
  have fn: "typeof_function (app 0 ''save'')" by (simp add: app_def)
  have i: "\<not> isDestroyed (module_init ReadsPassive) 0"
    "entry (module_init ReadsPassive) 0 ''save'' = None"
    by (simp_all add: module_init_def entry_def the_blob_def)
  have tt: "the_task (module_init ReadsPassive) 0 ''save'' = Some (Closure 0 0 ''save'')"
    by (simp add: the_task_plain [OF plain_save(1)] i) (simp add: module_init_def)
  have "registeredDebounces (snd (debounceTask app 0 (Str ''save'') [] 100 (module_init ReadsPassive))) 0
      = Some [(''save'', \<lparr> debouncedTask = Some (Closure 0 0 ''save''), cancelId = 0 \<rparr>)]"
    using plain_save(1)
    by (simp add: debounceTask_fields(7) [where P = app, OF fn i(1)] tt i)
       (simp add: module_init_def the_blob_def)
  then show ?thesis by (simp add: the_blob_def getDebouncesDisposable_frame)
qed

section \<open>The event listeners\<close>

subsection \<open>The subscription list\<close>

lemma removeEventListener_loop_Some:
  assumes "removeEventListener_loop l i element eventName callback = Some j"
  shows "i \<le> j \<and> j < length l \<and> (j - i) mod 5 = 0
    \<and> js_nth l j = element \<and> js_nth l (j + 1) = eventName \<and> js_nth l (j + 3) = callback"
  using assms
proof (induction l i element eventName callback rule: removeEventListener_loop.induct)
  case (1 listeners i element eventName callback)
  show ?case
  proof (cases "js_nth listeners (i + INDEX_ELEMENT) = element \<and>
            js_nth listeners (i + INDEX_EVENT_NAME) = eventName \<and>
            js_nth listeners (i + INDEX_ORIGINAL_CALLBACK) = callback")
    case True
    with "1.prems" show ?thesis
      by (simp add: removeEventListener_loop.simps [of listeners i] split: if_splits)
  next
    case False
    with "1.prems" have lt: "i < length listeners"
      and r: "removeEventListener_loop listeners (i + LISTENER_ITEM_LENGTH) element eventName callback
          = Some j"
      by (simp_all add: removeEventListener_loop.simps [of listeners i] split: if_splits)
    from "1.IH" [OF lt False r] have "i + 5 \<le> j" "j < length listeners" "(j - (i + 5)) mod 5 = 0"
      "js_nth listeners j = element \<and> js_nth listeners (j + 1) = eventName
        \<and> js_nth listeners (j + 3) = callback"
      by simp_all
    moreover from this have "(j - i) mod 5 = 0" by presburger
    ultimately show ?thesis by simp
  qed
qed

lemma getEventListeners_unfold:
  "fst (getEventListeners obj w) = the_listeners w obj"
  "eventListeners (snd (getEventListeners obj w)) = (eventListeners w)(obj \<mapsto> the_listeners w obj)"
  "dom_calls (snd (getEventListeners obj w)) = dom_calls w"
  "PASSIVE_SUPPORTED (snd (getEventListeners obj w)) = PASSIVE_SUPPORTED w"
  "next_fn (snd (getEventListeners obj w)) = next_fn w"
  "eventListeners w obj \<noteq> None \<Longrightarrow> snd (getEventListeners obj w) = w"
  by (auto simp: getEventListeners_def the_listeners_def registerDisposable_def
        split: option.splits)

lemma addEventListener_success:
  fixes obj :: owner and element eventName cb options :: jsval and w :: world
  assumes "truthy element" and "instanceof_Element element"
  defines "w' \<equiv> snd (addEventListener obj element eventName cb options w)"
  defines "options' \<equiv> (if \<not> PASSIVE_SUPPORTED w then Undefined else options)"
  shows "fst (addEventListener obj element eventName cb options w) = None"
    and "eventListeners w' = (eventListeners w)(obj \<mapsto> the_listeners w obj @
           [element, eventName, Bound (next_fn w) obj cb, cb, options'])"
    and "dom_calls w' = dom_calls w @ [DomAdd element eventName (Bound (next_fn w) obj cb) options']"
    and "next_fn w' = Suc (next_fn w)"
  using assms(1,2) unfolding w'_def options'_def
  by (auto simp: addEventListener_def getEventListeners_def the_listeners_def
        registerDisposable_def Let_def split: option.splits)

lemma addEventListener_failure:
  assumes "\<not> (truthy element \<and> instanceof_Element element)"
  shows "snd (addEventListener obj element eventName cb options w) = w"
    and "fst (addEventListener obj element eventName cb options w) \<noteq> None"
  using assms by (auto simp: addEventListener_def)

lemma removeEventListener_failure:
  assumes "\<not> (truthy element \<and> instanceof_Element element)"
  shows "snd (removeEventListener obj element eventName cb options w) = w"
    and "fst (removeEventListener obj element eventName cb options w) \<noteq> None"
  using assms by (auto simp: removeEventListener_def)

lemma removeEventListener_loop_Nil [simp]:
  "removeEventListener_loop [] i element eventName callback = None"
  by (simp add: removeEventListener_loop.simps)

lemma removeEventListener_success:
  fixes obj :: owner and element eventName cb options :: jsval and w :: world
  assumes "truthy element" and "instanceof_Element element"
  defines "w' \<equiv> snd (removeEventListener obj element eventName cb options w)"
  defines "options' \<equiv> (if \<not> PASSIVE_SUPPORTED w then Undefined else options)"
  defines "l \<equiv> the_listeners w obj"
  shows "fst (removeEventListener obj element eventName cb options w) = None"
    and "removeEventListener_loop l 0 element eventName cb = None \<Longrightarrow>
          eventListeners w' = (eventListeners w)(obj \<mapsto> l) \<and> dom_calls w' = dom_calls w"
    and "removeEventListener_loop l 0 element eventName cb = Some i \<Longrightarrow>
          eventListeners w' = (eventListeners w)(obj \<mapsto> splice i LISTENER_ITEM_LENGTH l)
          \<and> dom_calls w' = dom_calls w @
               [DomRemove element eventName (js_nth l (i + INDEX_CALLBACK)) options']"
    and "removeEventListener_loop l 0 element eventName cb = None \<Longrightarrow>
          eventListeners w obj \<noteq> None \<Longrightarrow> w' = w"
proof -
  show "fst (removeEventListener obj element eventName cb options w) = None"
    using assms(1,2)
    by (auto simp: removeEventListener_def Let_def split: prod.splits option.splits)
  show "eventListeners w' = (eventListeners w)(obj \<mapsto> l) \<and> dom_calls w' = dom_calls w"
    if "removeEventListener_loop l 0 element eventName cb = None"
    using that assms(1,2) unfolding w'_def l_def
    by (auto simp: removeEventListener_def Let_def getEventListeners_def the_listeners_def
        registerDisposable_def split: option.splits)
  show "eventListeners w' = (eventListeners w)(obj \<mapsto> splice i LISTENER_ITEM_LENGTH l)
          \<and> dom_calls w' = dom_calls w @
               [DomRemove element eventName (js_nth l (i + INDEX_CALLBACK)) options']"
    if "removeEventListener_loop l 0 element eventName cb = Some i"
    using that assms(1,2) unfolding w'_def l_def options'_def
    by (auto simp: removeEventListener_def Let_def getEventListeners_def the_listeners_def
        registerDisposable_def split: option.splits)
  show "w' = w"
    if "removeEventListener_loop l 0 element eventName cb = None" "eventListeners w obj \<noteq> None"
    using that assms(1,2) unfolding w'_def l_def
    by (auto simp: removeEventListener_def Let_def getEventListeners_def the_listeners_def
        split: option.splits)
qed

lemma the_listeners_length:
  "wf_listeners w \<Longrightarrow> length (the_listeners w obj) mod 5 = 0"
  by (auto simp: wf_listeners_def the_listeners_def split: option.splits)

lemma wf_listeners_frame:
  "wf_listeners w \<Longrightarrow> eventListeners w' = eventListeners w \<Longrightarrow> wf_listeners w'"
  by (simp add: wf_listeners_def)

lemma wf_listeners_addEventListener:
  assumes "wf_listeners w"
  shows "wf_listeners (snd (addEventListener obj element eventName cb options w))"
proof (cases "truthy element \<and> instanceof_Element element")
  case False
  with assms show ?thesis by (simp add: addEventListener_failure(1))
next
  case True
  then have v: "truthy element" "instanceof_Element element" by auto
  from assms the_listeners_length [OF assms, of obj] show ?thesis
    by (auto simp: wf_listeners_def addEventListener_success(2) [OF v])
qed

lemma splice_tuple:
  assumes "length l mod 5 = 0" and "i < length l" and "i mod 5 = 0"
  shows "i + 5 \<le> length l" and "length (splice i 5 l) mod 5 = 0"
proof -
  from assms show le: "i + 5 \<le> length l" by presburger
  then have "length (splice i 5 l) = length l - 5" by (simp add: splice_def)
  with assms(1) le show "length (splice i 5 l) mod 5 = 0" by presburger
qed

lemma wf_listeners_removeEventListener:
  assumes "wf_listeners w"
  shows "wf_listeners (snd (removeEventListener obj element eventName cb options w))"
proof (cases "truthy element \<and> instanceof_Element element")
  case False
  with assms show ?thesis by (simp add: removeEventListener_failure(1))
next
  case True
  then have v: "truthy element" "instanceof_Element element" by auto
  note len = the_listeners_length [OF assms, of obj]
  show ?thesis
  proof (cases "removeEventListener_loop (the_listeners w obj) 0 element eventName cb")
    case None
    with assms len show ?thesis
      by (auto simp: wf_listeners_def removeEventListener_success(2) [OF v])
  next
    case (Some i)
    from removeEventListener_loop_Some [OF Some]
    have "i < length (the_listeners w obj)" "i mod 5 = 0" by simp_all
    from splice_tuple(2) [OF len this] assms show ?thesis
      by (auto simp: wf_listeners_def removeEventListener_success(3) [OF v Some])
  qed
qed

lemma wf_listeners_exec_cmd: "wf_listeners w \<Longrightarrow> wf_listeners (snd (exec_cmd P c w))"
proof (cases c)
  case (DebounceTask obj name a d)
  assume "wf_listeners w" then show ?thesis unfolding DebounceTask
    by (rule wf_listeners_frame) (simp add: debounceTask_frame)
next
  case (CancelDebounce obj name)
  assume "wf_listeners w" then show ?thesis unfolding CancelDebounce
    by (rule wf_listeners_frame) (simp add: cancelDebounce_frame)
next
  case (AddEventListener obj el ev cb op)
  assume "wf_listeners w" then show ?thesis unfolding AddEventListener
    by (simp add: wf_listeners_addEventListener)
next
  case (RemoveEventListener obj el ev cb op)
  assume "wf_listeners w" then show ?thesis unfolding RemoveEventListener
    by (simp add: wf_listeners_removeEventListener)
next
  case (RunDisposables obj)
  assume "wf_listeners w" then show ?thesis unfolding RunDisposables
    by (rule wf_listeners_frame) (simp add: runDisposables_frame)
qed

lemma wf_listeners_exec_cmds: "wf_listeners w \<Longrightarrow> wf_listeners (snd (exec_cmds P cs w))"
proof (induction cs arbitrary: w)
  case Nil
  then show ?case by simp
next
  case (Cons c cs)
  from Cons.prems have "wf_listeners (snd (exec_cmd P c w))" by (rule wf_listeners_exec_cmd)
  with Cons.IH show ?case
    by (cases "exec_cmd P c w") (auto split: option.splits)
qed


lemma wf_listeners_fire:
  assumes "wf_listeners w"
  shows "wf_listeners (snd (fire P tok w))"
proof (cases "find (\<lambda>t. tm_token t = tok \<and> tm_due t \<le> now w) (timers w)")
  case None
  with assms show ?thesis by (simp add: fire_def)
next
  case (Some t)
  have 0: "wf_listeners (cancel (Some tok) w)"
    using assms by (rule wf_listeners_frame) simp
  show ?thesis
  proof (cases "tm_method t")
    case None
    with 0 show ?thesis by (simp add: fire_unfold(2) [OF Some])
  next
    case (Some c)
    obtain i obj name where c: "c = Closure i obj name" by (cases c)
    have m: "tm_method t = Some (Closure i obj name)" using Some c by simp
    have 1: "wf_listeners (delete_pending obj name (cancel (Some tok) w))"
      using assms by (rule wf_listeners_frame) simp
    then have 2: "wf_listeners (invoke obj name (tm_args t)
        (delete_pending obj name (cancel (Some tok) w)))"
      by (rule wf_listeners_frame) (simp add: invoke_def)
    show ?thesis
      by (cases "P obj name")
         (simp_all add: fire_unfold(1) [OF \<open>find _ _ = Some t\<close> m] 1
            wf_listeners_exec_cmds [OF 2])
  qed
qed

lemma wf_listeners_step: "wf_listeners w \<Longrightarrow> wf_listeners (step P e w)"
  by (cases e)
     (auto simp: wf_listeners_exec_cmd wf_listeners_fire elapse_def destroy_def
        intro: wf_listeners_frame)

lemma wf_listeners_run: "wf_listeners w \<Longrightarrow> wf_listeners (run P es w)"
  by (induction es arbitrary: w) (simp_all add: wf_listeners_step)

lemma wf_listeners_reachable: "wf_listeners (run P es (module_init h))"
  by (rule wf_listeners_run) (simp add: wf_listeners_def module_init_def)


lemma removeEventListener_loop_first:
  assumes "i \<le> k" and "(k - i) mod 5 = 0" and "k < length l"
    and "tuple_matches l k element eventName callback"
    and "\<forall>j. i \<le> j \<and> j < k \<and> (j - i) mod 5 = 0
           \<longrightarrow> \<not> tuple_matches l j element eventName callback"
  shows "removeEventListener_loop l i element eventName callback = Some k"
  using assms
proof (induction l i element eventName callback rule: removeEventListener_loop.induct)
  case (1 listeners i element eventName callback)
  note ih = "1.IH" [unfolded LISTENER_ITEM_LENGTH_def]
  show ?case
  proof (cases "i = k")
    case True
    with "1.prems"(3,4) show ?thesis
      by (subst removeEventListener_loop.simps) (simp add: tuple_matches_def)
  next
    case False
    with "1.prems"(1) have lt: "i < k" by simp
    with "1.prems"(3) have il: "i < length listeners" by simp
    from "1.prems"(5) [rule_format, of i] lt
    have miss: "\<not> tuple_matches listeners i element eventName callback"
      by simp
    then have miss': "\<not> (js_nth listeners (i + INDEX_ELEMENT) = element \<and>
            js_nth listeners (i + INDEX_EVENT_NAME) = eventName \<and>
            js_nth listeners (i + INDEX_ORIGINAL_CALLBACK) = callback)"
      unfolding tuple_matches_def .
    from lt "1.prems"(2) have a: "i + 5 \<le> k" by presburger
    from lt "1.prems"(2) have b: "(k - (i + 5)) mod 5 = 0" by presburger
    have c: "\<forall>j. i + 5 \<le> j \<and> j < k \<and> (j - (i + 5)) mod 5 = 0
           \<longrightarrow> \<not> tuple_matches listeners j element eventName callback"
    proof (intro allI impI)
      fix j
      assume j: "i + 5 \<le> j \<and> j < k \<and> (j - (i + 5)) mod 5 = 0"
      then have "i \<le> j \<and> j < k \<and> (j - i) mod 5 = 0" by presburger
      with "1.prems"(5) [rule_format, of j]
      show "\<not> tuple_matches listeners j element eventName callback" by simp
    qed
    have "removeEventListener_loop listeners (i + 5) element eventName callback = Some k"
      by (rule ih [OF il miss' a b "1.prems"(3,4) c])
    with il miss' show ?thesis
      by (subst removeEventListener_loop.simps) auto
  qed
qed


lemma removeEventListener_loop_none:
  assumes "\<forall>j. i \<le> j \<and> j < length l \<and> (j - i) mod 5 = 0
           \<longrightarrow> \<not> tuple_matches l j element eventName callback"
  shows "removeEventListener_loop l i element eventName callback = None"
  using assms
proof (induction l i element eventName callback rule: removeEventListener_loop.induct)
  case (1 listeners i element eventName callback)
  note ih = "1.IH" [unfolded LISTENER_ITEM_LENGTH_def]
  show ?case
  proof (cases "i < length listeners")
    case False
    then show ?thesis by (subst removeEventListener_loop.simps) simp
  next
    case True
    with "1.prems" [rule_format, of i]
    have miss: "\<not> tuple_matches listeners i element eventName callback" by simp
    then have miss': "\<not> (js_nth listeners (i + INDEX_ELEMENT) = element \<and>
            js_nth listeners (i + INDEX_EVENT_NAME) = eventName \<and>
            js_nth listeners (i + INDEX_ORIGINAL_CALLBACK) = callback)"
      unfolding tuple_matches_def .
    have c: "\<forall>j. i + 5 \<le> j \<and> j < length listeners \<and> (j - (i + 5)) mod 5 = 0
           \<longrightarrow> \<not> tuple_matches listeners j element eventName callback"
    proof (intro allI impI)
      fix j
      assume j: "i + 5 \<le> j \<and> j < length listeners \<and> (j - (i + 5)) mod 5 = 0"
      then have "i \<le> j \<and> j < length listeners \<and> (j - i) mod 5 = 0" by presburger
      with "1.prems" [rule_format, of j]
      show "\<not> tuple_matches listeners j element eventName callback" by simp
    qed
    have "removeEventListener_loop listeners (i + 5) element eventName callback = None"
      by (rule ih [OF True miss' c])
    with True miss' show ?thesis
      by (subst removeEventListener_loop.simps) auto
  qed
qed

text \<open>
  C10. In every reachable state the subscription list of every owner has a length that
  is a multiple of 5. \<open>addEventListener\<close> with a valid element appends exactly the five
  elements (element, event name, wrapped callback, original callback, options, the
  options dropped when passive listeners are unsupported) to the list of the owner. On a
  list whose length is a multiple of 5, \<open>removeEventListener\<close> with a valid element removes
  exactly the five contiguous elements that start at the first tuple boundary \<open>i\<close> at
  which element, event name and original callback match, and leaves the list as it is
  when they match at no tuple boundary; in both cases the length stays a multiple of 5.
  A call that fails its assertions leaves the list as it is.
\<close>

theorem five_slot_tuples:
  fixes P :: program and es :: "event list" and h :: host and v :: world
    and obj :: owner and element eventName originalCallback options :: jsval
  defines "l \<equiv> the_listeners v obj"
  defines "added \<equiv>
    the_listeners (snd (addEventListener obj element eventName originalCallback options v)) obj"
  defines "removed \<equiv>
    the_listeners (snd (removeEventListener obj element eventName originalCallback options v)) obj"
  shows "(\<forall>listeners. eventListeners (run P es (module_init h)) obj = Some listeners
            \<longrightarrow> length listeners mod LISTENER_ITEM_LENGTH = 0)
    \<and> (truthy element \<and> instanceof_Element element \<longrightarrow>
          added = l @ [element, eventName, Bound (next_fn v) obj originalCallback,
                       originalCallback, if \<not> PASSIVE_SUPPORTED v then Undefined else options]
          \<and> length added = length l + LISTENER_ITEM_LENGTH)
    \<and> (truthy element \<and> instanceof_Element element \<and> length l mod LISTENER_ITEM_LENGTH = 0 \<longrightarrow>
          (\<forall>i. i < length l \<and> i mod LISTENER_ITEM_LENGTH = 0
                \<and> tuple_matches l i element eventName originalCallback
                \<and> (\<forall>j < i. j mod LISTENER_ITEM_LENGTH = 0
                       \<longrightarrow> \<not> tuple_matches l j element eventName originalCallback)
              \<longrightarrow> i + LISTENER_ITEM_LENGTH \<le> length l
                \<and> removed = take i l @ drop (i + LISTENER_ITEM_LENGTH) l
                \<and> length removed + LISTENER_ITEM_LENGTH = length l)
          \<and> ((\<forall>i < length l. i mod LISTENER_ITEM_LENGTH = 0
                  \<longrightarrow> \<not> tuple_matches l i element eventName originalCallback)
              \<longrightarrow> removed = l)
          \<and> length removed mod LISTENER_ITEM_LENGTH = 0)
    \<and> (\<not> (truthy element \<and> instanceof_Element element) \<longrightarrow> added = l \<and> removed = l)"
proof -
  have a: "\<forall>listeners. eventListeners (run P es (module_init h)) obj = Some listeners
            \<longrightarrow> length listeners mod LISTENER_ITEM_LENGTH = 0"
    using wf_listeners_reachable [of P es h] by (simp add: wf_listeners_def)
  have b: "added = l @ [element, eventName, Bound (next_fn v) obj originalCallback,
                       originalCallback, if \<not> PASSIVE_SUPPORTED v then Undefined else options]
          \<and> length added = length l + LISTENER_ITEM_LENGTH"
    if "truthy element \<and> instanceof_Element element"
    using that by (simp add: added_def the_listeners_def [of "snd _"] addEventListener_success(2) l_def)
  have c: "(\<forall>i. i < length l \<and> i mod LISTENER_ITEM_LENGTH = 0
                \<and> tuple_matches l i element eventName originalCallback
                \<and> (\<forall>j < i. j mod LISTENER_ITEM_LENGTH = 0
                       \<longrightarrow> \<not> tuple_matches l j element eventName originalCallback)
              \<longrightarrow> i + LISTENER_ITEM_LENGTH \<le> length l
                \<and> removed = take i l @ drop (i + LISTENER_ITEM_LENGTH) l
                \<and> length removed + LISTENER_ITEM_LENGTH = length l)
          \<and> ((\<forall>i < length l. i mod LISTENER_ITEM_LENGTH = 0
                  \<longrightarrow> \<not> tuple_matches l i element eventName originalCallback)
              \<longrightarrow> removed = l)
          \<and> length removed mod LISTENER_ITEM_LENGTH = 0"
    if valid: "truthy element \<and> instanceof_Element element"
      and len: "length l mod LISTENER_ITEM_LENGTH = 0"
  proof -
    from valid have el: "truthy element" "instanceof_Element element" by auto
    note rm = removeEventListener_success [where w = v and obj = obj and options = options
        and cb = originalCallback and eventName = eventName, OF el, folded l_def]
    from len have len5: "length l mod 5 = 0" by simp
    have c1: "i + LISTENER_ITEM_LENGTH \<le> length l
                \<and> removed = take i l @ drop (i + LISTENER_ITEM_LENGTH) l
                \<and> length removed + LISTENER_ITEM_LENGTH = length l"
      if i: "i < length l \<and> i mod LISTENER_ITEM_LENGTH = 0
                \<and> tuple_matches l i element eventName originalCallback
                \<and> (\<forall>j < i. j mod LISTENER_ITEM_LENGTH = 0
                       \<longrightarrow> \<not> tuple_matches l j element eventName originalCallback)" for i
    proof -
      note i1 = i [THEN conjunct1]
      note i2 = i [THEN conjunct2, THEN conjunct1, unfolded LISTENER_ITEM_LENGTH_def]
      note i3 = i [THEN conjunct2, THEN conjunct2, THEN conjunct1]
      note i4 = i [THEN conjunct2, THEN conjunct2, THEN conjunct2,
          unfolded LISTENER_ITEM_LENGTH_def]
      have "removeEventListener_loop l 0 element eventName originalCallback = Some i"
      proof (rule removeEventListener_loop_first)
        show "0 \<le> i" by simp
        show "(i - 0) mod 5 = 0" using i2 by simp
        show "i < length l" by (rule i1)
        show "tuple_matches l i element eventName originalCallback" by (rule i3)
        show "\<forall>j. 0 \<le> j \<and> j < i \<and> (j - 0) mod 5 = 0
           \<longrightarrow> \<not> tuple_matches l j element eventName originalCallback"
        proof (intro allI impI)
          fix j
          assume "0 \<le> j \<and> j < i \<and> (j - 0) mod 5 = 0"
          then have "j < i" "j mod 5 = 0" by simp_all
          with i4 [rule_format, of j]
          show "\<not> tuple_matches l j element eventName originalCallback" by simp
        qed
      qed
      from rm(3) [OF this] have r: "removed = take i l @ drop (i + 5) l"
        by (simp add: removed_def the_listeners_def [of "snd _"] splice_def)
      from splice_tuple(1) [OF len5 i1 i2] have le: "i + 5 \<le> length l" .
      with r show ?thesis by simp
    qed
    have c2: "removed = l"
      if no: "\<forall>i < length l. i mod LISTENER_ITEM_LENGTH = 0
                  \<longrightarrow> \<not> tuple_matches l i element eventName originalCallback"
    proof -
      have "removeEventListener_loop l 0 element eventName originalCallback = None"
      proof (rule removeEventListener_loop_none, intro allI impI)
        fix j
        assume "0 \<le> j \<and> j < length l \<and> (j - 0) mod 5 = 0"
        then have "j < length l" "j mod 5 = 0" by simp_all
        with no [unfolded LISTENER_ITEM_LENGTH_def, rule_format, of j]
        show "\<not> tuple_matches l j element eventName originalCallback" by simp
      qed
      from rm(2) [OF this] show ?thesis
        by (simp add: removed_def the_listeners_def [of "snd _"])
    qed
    have c3: "length removed mod LISTENER_ITEM_LENGTH = 0"
    proof (cases "removeEventListener_loop l 0 element eventName originalCallback")
      case None
      from rm(2) [OF None] len show ?thesis
        by (simp add: removed_def the_listeners_def [of "snd _"])
    next
      case (Some i)
      from removeEventListener_loop_Some [OF Some]
      have "i < length l" "i mod 5 = 0" by simp_all
      from splice_tuple(2) [OF len5 this] rm(3) [OF Some] show ?thesis
        by (simp add: removed_def the_listeners_def [of "snd _"])
    qed
    from c1 c2 c3 show ?thesis by blast
  qed
  have d: "added = l \<and> removed = l" if "\<not> (truthy element \<and> instanceof_Element element)"
    using that
    by (simp add: added_def removed_def l_def addEventListener_failure(1)
        removeEventListener_failure(1))
  from b have b': "truthy element \<and> instanceof_Element element \<longrightarrow>
          added = l @ [element, eventName, Bound (next_fn v) obj originalCallback,
                       originalCallback, if \<not> PASSIVE_SUPPORTED v then Undefined else options]
          \<and> length added = length l + LISTENER_ITEM_LENGTH"
    by (rule impI)
  from c have c': "truthy element \<and> instanceof_Element element
        \<and> length l mod LISTENER_ITEM_LENGTH = 0 \<longrightarrow>
          (\<forall>i. i < length l \<and> i mod LISTENER_ITEM_LENGTH = 0
                \<and> tuple_matches l i element eventName originalCallback
                \<and> (\<forall>j < i. j mod LISTENER_ITEM_LENGTH = 0
                       \<longrightarrow> \<not> tuple_matches l j element eventName originalCallback)
              \<longrightarrow> i + LISTENER_ITEM_LENGTH \<le> length l
                \<and> removed = take i l @ drop (i + LISTENER_ITEM_LENGTH) l
                \<and> length removed + LISTENER_ITEM_LENGTH = length l)
          \<and> ((\<forall>i < length l. i mod LISTENER_ITEM_LENGTH = 0
                  \<longrightarrow> \<not> tuple_matches l i element eventName originalCallback)
              \<longrightarrow> removed = l)
          \<and> length removed mod LISTENER_ITEM_LENGTH = 0"
    by (intro impI) (elim conjE, rule c, simp_all)
  from d have d': "\<not> (truthy element \<and> instanceof_Element element) \<longrightarrow> added = l \<and> removed = l"
    by (rule impI)
  show ?thesis by (rule conjI [OF a conjI [OF b' conjI [OF c' d']]])
qed

theorem five_slot_tuples_witness:
  "eventListeners
       (run app [Call (AddEventListener 0 (Element 1) (Str ''click'') (Fn 7) Undefined),
                 Call (AddEventListener 0 (Element 2) (Str ''click'') (Fn 8) Undefined)]
          (module_init ReadsPassive)) 0
     = Some [Element 1, Str ''click'', Bound 0 0 (Fn 7), Fn 7, Undefined,
             Element 2, Str ''click'', Bound 1 0 (Fn 8), Fn 8, Undefined]
   \<and> truthy (Element 2) \<and> instanceof_Element (Element 2)
   \<and> length [Element 1, Str ''click'', Bound 0 0 (Fn 7), Fn 7, Undefined,
              Element 2, Str ''click'', Bound 1 0 (Fn 8), Fn 8, Undefined]
        mod LISTENER_ITEM_LENGTH = 0
   \<and> (5::nat) mod LISTENER_ITEM_LENGTH = 0
   \<and> tuple_matches [Element 1, Str ''click'', Bound 0 0 (Fn 7), Fn 7, Undefined,
                     Element 2, Str ''click'', Bound 1 0 (Fn 8), Fn 8, Undefined]
        5 (Element 2) (Str ''click'') (Fn 8)
   \<and> \<not> tuple_matches [Element 1, Str ''click'', Bound 0 0 (Fn 7), Fn 7, Undefined,
                       Element 2, Str ''click'', Bound 1 0 (Fn 8), Fn 8, Undefined]
          0 (Element 2) (Str ''click'') (Fn 8)
   \<and> the_listeners (snd (removeEventListener 0 (Element 2) (Str ''click'') (Fn 8) Undefined
        (run app [Call (AddEventListener 0 (Element 1) (Str ''click'') (Fn 7) Undefined),
                  Call (AddEventListener 0 (Element 2) (Str ''click'') (Fn 8) Undefined)]
           (module_init ReadsPassive)))) 0
     = [Element 1, Str ''click'', Bound 0 0 (Fn 7), Fn 7, Undefined]
   \<and> the_listeners (snd (addEventListener 0 (Element 2) (Str ''click'') (Fn 8) Undefined
        (run app [Call (AddEventListener 0 (Element 1) (Str ''click'') (Fn 7) Undefined),
                  Call (AddEventListener 0 (Element 2) (Str ''click'') (Fn 8) Undefined)]
           (module_init ReadsPassive)))) 0
     = [Element 1, Str ''click'', Bound 0 0 (Fn 7), Fn 7, Undefined,
        Element 2, Str ''click'', Bound 1 0 (Fn 8), Fn 8, Undefined,
        Element 2, Str ''click'', Bound 2 0 (Fn 8), Fn 8, Undefined]"
proof -
  define es where "es = [Call (AddEventListener 0 (Element 1) (Str ''click'') (Fn 7) Undefined),
                 Call (AddEventListener 0 (Element 2) (Str ''click'') (Fn 8) Undefined)]"
  define v where "v = run app es (module_init ReadsPassive)"
  define l where "l = [Element 1, Str ''click'', Bound 0 0 (Fn 7), Fn 7, Undefined,
             Element 2, Str ''click'', Bound 1 0 (Fn 8), Fn 8, Undefined]"
  have e: "eventListeners v 0 = Some l" and n: "next_fn v = 2" and ps: "PASSIVE_SUPPORTED v"
    by (simp_all add: v_def es_def l_def addEventListener_def getEventListeners_def
        registerDisposable_def module_init_def Let_def)
  then have tl: "the_listeners v 0 = l" by (simp add: the_listeners_def)
  have el: "truthy (Element 2)" "instanceof_Element (Element 2)" by simp_all
  have len: "length l mod LISTENER_ITEM_LENGTH = 0" by (simp add: l_def)
  have five: "(5::nat) mod LISTENER_ITEM_LENGTH = 0" by simp
  have hit: "tuple_matches l 5 (Element 2) (Str ''click'') (Fn 8)"
    and miss: "\<not> tuple_matches l 0 (Element 2) (Str ''click'') (Fn 8)"
    by (simp_all add: tuple_matches_def js_nth_def l_def)
  have first: "\<forall>j < 5. j mod LISTENER_ITEM_LENGTH = 0
      \<longrightarrow> \<not> tuple_matches l j (Element 2) (Str ''click'') (Fn 8)"
  proof (intro allI impI)
    fix j :: nat
    assume "j < 5" "j mod LISTENER_ITEM_LENGTH = 0"
    then have "j = 0" by simp
    with miss show "\<not> tuple_matches l j (Element 2) (Str ''click'') (Fn 8)" by simp
  qed
  note t = five_slot_tuples [where P = app and h = ReadsPassive and v = v and obj = 0
      and es = es and element = "Element 2" and eventName = "Str ''click''"
      and originalCallback = "Fn 8" and options = Undefined, unfolded tl]
  note ad = t [THEN conjunct2, THEN conjunct1, rule_format, OF conjI [OF el]]
  note rm = t [THEN conjunct2, THEN conjunct2, THEN conjunct1, rule_format,
      OF conjI [OF el(1) conjI [OF el(2) len]], THEN conjunct1, rule_format, of 5]
  have "5 < length l" by (simp add: l_def)
  from rm [OF conjI [OF this conjI [OF five conjI [OF hit first]]]]
  have r: "the_listeners (snd (removeEventListener 0 (Element 2) (Str ''click'') (Fn 8) Undefined v)) 0
      = [Element 1, Str ''click'', Bound 0 0 (Fn 7), Fn 7, Undefined]"
    by (simp add: l_def)
  from ad have a: "the_listeners (snd (addEventListener 0 (Element 2) (Str ''click'') (Fn 8) Undefined v)) 0
     = [Element 1, Str ''click'', Bound 0 0 (Fn 7), Fn 7, Undefined,
        Element 2, Str ''click'', Bound 1 0 (Fn 8), Fn 8, Undefined,
        Element 2, Str ''click'', Bound 2 0 (Fn 8), Fn 8, Undefined]"
    by (simp add: l_def n ps)
  from e el len five hit miss r a show ?thesis
    unfolding v_def es_def l_def by (intro conjI)
qed

subsection \<open>The flat array against the tuples\<close>

lemma length_flatten [simp]: "length (flatten subs) = 5 * length subs"
  by (induction subs) (simp_all add: flatten_def tuple_of_def)

lemma flatten_append [simp]: "flatten (xs @ ys) = flatten xs @ flatten ys"
  by (simp add: flatten_def)

lemma flatten_Cons: "flatten (s # ys) = tuple_of s @ flatten ys"
  by (simp add: flatten_def)

lemma flatten_Nil [simp]: "flatten [] = []"
  by (simp add: flatten_def)

lemma js_nth_flatten:
  "js_nth (flatten (pre @ s # post)) (5 * length pre) = sub_target s"
  "js_nth (flatten (pre @ s # post)) (5 * length pre + 1) = sub_eventName s"
  "js_nth (flatten (pre @ s # post)) (5 * length pre + 2) = sub_dispatchCallback s"
  "js_nth (flatten (pre @ s # post)) (5 * length pre + 3) = sub_originalCallback s"
  "js_nth (flatten (pre @ s # post)) (5 * length pre + 4) = sub_options s"
  by (simp_all add: js_nth_def nth_append flatten_Cons tuple_of_def)

lemma loop_hit:
  assumes "matches element eventName callback s"
  shows "removeEventListener_loop (flatten (pre @ s # post)) (5 * length pre)
           element eventName callback = Some (5 * length pre)"
  using assms js_nth_flatten [of pre s post]
  by (subst removeEventListener_loop.simps) (simp add: matches_def)

lemma loop_miss:
  assumes "\<not> matches element eventName callback s"
  shows "removeEventListener_loop (flatten (pre @ s # post)) (5 * length pre)
           element eventName callback
         = removeEventListener_loop (flatten ((pre @ [s]) @ post)) (5 * length (pre @ [s]))
           element eventName callback"
  using assms js_nth_flatten [of pre s post]
  by (subst removeEventListener_loop.simps) (auto simp: matches_def add.commute)

lemma loop_end:
  "removeEventListener_loop (flatten pre) (5 * length pre) element eventName callback = None"
  by (subst removeEventListener_loop.simps) simp

lemma loop_skip:
  assumes "\<forall>x \<in> set xs. \<not> matches element eventName callback x"
  shows "removeEventListener_loop (flatten (pre @ xs @ post)) (5 * length pre)
           element eventName callback
         = removeEventListener_loop (flatten ((pre @ xs) @ post)) (5 * length (pre @ xs))
           element eventName callback"
  using assms
proof (induction xs arbitrary: pre)
  case Nil
  then show ?case by simp
next
  case (Cons x xs)
  from Cons.prems have x: "\<not> matches element eventName callback x"
    and xs: "\<forall>x \<in> set xs. \<not> matches element eventName callback x" by simp_all
  from loop_miss [OF x, of pre "xs @ post"] Cons.IH [OF xs, of "pre @ [x]"]
  show ?case by simp
qed

lemma unsubscribe_first_miss:
  assumes "\<not> matches element eventName callback x"
  shows "fst (unsubscribe_first element eventName callback (x # subs))
           = fst (unsubscribe_first element eventName callback subs)"
    and "snd (unsubscribe_first element eventName callback (x # subs))
           = x # snd (unsubscribe_first element eventName callback subs)"
  using assms by (simp_all split: prod.splits)

lemma unsubscribe_first_None:
  assumes "fst (unsubscribe_first element eventName callback subs) = None"
  shows "snd (unsubscribe_first element eventName callback subs) = subs"
    and "\<forall>x \<in> set subs. \<not> matches element eventName callback x"
  using assms
  by (induction subs) (auto split: if_splits prod.splits)

lemma unsubscribe_first_Some:
  assumes "fst (unsubscribe_first element eventName callback subs) = Some s"
  shows "\<exists>xs ys. subs = xs @ s # ys
           \<and> snd (unsubscribe_first element eventName callback subs) = xs @ ys
           \<and> matches element eventName callback s
           \<and> (\<forall>x \<in> set xs. \<not> matches element eventName callback x)"
  using assms
proof (induction subs)
  case Nil
  then show ?case by simp
next
  case (Cons x subs)
  show ?case
  proof (cases "matches element eventName callback x")
    case True
    with Cons.prems have "x = s" by simp
    with True show ?thesis by (intro exI [of _ "[]"] exI [of _ subs]) simp
  next
    case False
    with Cons.prems have "fst (unsubscribe_first element eventName callback subs) = Some s"
      by (simp del: unsubscribe_first.simps add: unsubscribe_first_miss)
    from Cons.IH [OF this] obtain xs ys where
      "subs = xs @ s # ys" "snd (unsubscribe_first element eventName callback subs) = xs @ ys"
      "matches element eventName callback s" "\<forall>x \<in> set xs. \<not> matches element eventName callback x"
      by blast
    with False show ?thesis
      by (intro exI [of _ "x # xs"] exI [of _ ys]) (simp add: unsubscribe_first_miss del: unsubscribe_first.simps)
  qed
qed

lemma loop_flatten_None:
  assumes "\<forall>x \<in> set subs. \<not> matches element eventName callback x"
  shows "removeEventListener_loop (flatten subs) 0 element eventName callback = None"
  using loop_skip [OF assms, of "[]" "[]"] loop_end [of subs element eventName callback]
  by simp

lemma loop_flatten_Some:
  assumes "\<forall>x \<in> set xs. \<not> matches element eventName callback x"
    and "matches element eventName callback s"
  shows "removeEventListener_loop (flatten (xs @ s # ys)) 0 element eventName callback
          = Some (5 * length xs)"
  using loop_skip [OF assms(1), of "[]" "s # ys"] loop_hit [OF assms(2), of xs ys]
  by simp

lemma splice_flatten:
  "splice (5 * length xs) 5 (flatten (xs @ s # ys)) = flatten (xs @ ys)"
  by (simp add: splice_def flatten_Cons tuple_of_def)

lemma removeEventListener_refines:
  fixes obj :: owner and element eventName callback options :: jsval and w :: world
    and subs :: "subscription list"
  defines "w' \<equiv> snd (removeEventListener obj element eventName callback options w)"
  defines "options' \<equiv> (if \<not> PASSIVE_SUPPORTED w then Undefined else options)"
  defines "found \<equiv> fst (unsubscribe_first element eventName callback subs)"
  defines "rest \<equiv> snd (unsubscribe_first element eventName callback subs)"
  assumes el: "truthy element" "instanceof_Element element"
    and l: "the_listeners w obj = flatten subs"
  shows "eventListeners w' obj = Some (flatten rest)"
    and "dom_calls w' = dom_calls w @
           (case found of None \<Rightarrow> []
            | Some s \<Rightarrow> [DomRemove element eventName (sub_dispatchCallback s) options'])"
    and "found = None \<Longrightarrow> eventListeners w obj \<noteq> None \<Longrightarrow> w' = w"
proof -
  note r = removeEventListener_success [where w = w and obj = obj and options = options
      and cb = callback and eventName = eventName, OF el, unfolded l, folded w'_def options'_def]
  have "eventListeners w' obj = Some (flatten rest)
    \<and> dom_calls w' = dom_calls w @
           (case found of None \<Rightarrow> []
            | Some s \<Rightarrow> [DomRemove element eventName (sub_dispatchCallback s) options'])
    \<and> (found = None \<longrightarrow> eventListeners w obj \<noteq> None \<longrightarrow> w' = w)"
  proof (cases found)
    case None
    from unsubscribe_first_None [OF None [unfolded found_def]]
    have rest: "rest = subs" and no: "\<forall>x \<in> set subs. \<not> matches element eventName callback x"
      by (simp_all add: rest_def)
    from loop_flatten_None [OF no] r(2,4) None rest show ?thesis by simp
  next
    case (Some s)
    from unsubscribe_first_Some [OF Some [unfolded found_def]] obtain xs ys where
      x: "subs = xs @ s # ys" "rest = xs @ ys" "matches element eventName callback s"
        "\<forall>x \<in> set xs. \<not> matches element eventName callback x"
      unfolding rest_def by blast
    from loop_flatten_Some [OF x(4,3), of ys]
    have "removeEventListener_loop (flatten subs) 0 element eventName callback
        = Some (5 * length xs)" by (simp add: x(1))
    from r(3) [OF this] Some show ?thesis
      using splice_flatten [of xs s ys] js_nth_flatten(3) [of xs s ys] by (simp add: x(1,2))
  qed
  then show "eventListeners w' obj = Some (flatten rest)"
    and "dom_calls w' = dom_calls w @
           (case found of None \<Rightarrow> []
            | Some s \<Rightarrow> [DomRemove element eventName (sub_dispatchCallback s) options'])"
    and "found = None \<Longrightarrow> eventListeners w obj \<noteq> None \<Longrightarrow> w' = w"
    by blast+
qed

lemma unsubscribe_first_skip:
  assumes "\<forall>x \<in> set xs. \<not> matches element eventName callback x"
  shows "unsubscribe_first element eventName callback (xs @ ys)
    = (fst (unsubscribe_first element eventName callback ys),
       xs @ snd (unsubscribe_first element eventName callback ys))"
  using assms by (induction xs) (simp_all split: prod.splits)

lemma the_listeners_Some:
  "eventListeners w obj = Some l \<Longrightarrow> the_listeners w obj = l"
  by (simp add: the_listeners_def)

text \<open>
  C6, as amended. Let the subscription list of the owner be the flattening of the tuples
  \<open>subs\<close>, and let the element be an \<open>Element\<close>. Then \<open>removeEventListener\<close> leaves the
  flattening of the tuples without the first one that matches element, event name and
  original callback, the others in their order, and it unregisters the wrapper of that
  tuple from the element, with the options of the call (dropped when passive listeners
  are unsupported). If no tuple matches, no listener is unregistered and the list is
  unchanged; the state is then unchanged as well, provided the owner already had a
  list. Registering the same element, event name and callback twice appends two tuples
  with wrappers of their own, and one removal removes exactly one tuple: the first of the
  two, when no earlier tuple matches.
\<close>

theorem removeEventListener_first_match:
  fixes obj :: owner and element eventName callback options :: jsval and w :: world
    and subs :: "subscription list"
  defines "w' \<equiv> snd (removeEventListener obj element eventName callback options w)"
  defines "options' \<equiv> (if \<not> PASSIVE_SUPPORTED w then Undefined else options)"
  defines "found \<equiv> fst (unsubscribe_first element eventName callback subs)"
  defines "rest \<equiv> snd (unsubscribe_first element eventName callback subs)"
  defines "s1 \<equiv> \<lparr> sub_target = element, sub_eventName = eventName,
      sub_dispatchCallback = Bound (next_fn w) obj callback, sub_originalCallback = callback,
      sub_options = options' \<rparr>"
  defines "s2 \<equiv> \<lparr> sub_target = element, sub_eventName = eventName,
      sub_dispatchCallback = Bound (Suc (next_fn w)) obj callback, sub_originalCallback = callback,
      sub_options = options' \<rparr>"
  defines "twice \<equiv> snd (addEventListener obj element eventName callback options
      (snd (addEventListener obj element eventName callback options w)))"
  assumes el: "truthy element" "instanceof_Element element"
    and l: "the_listeners w obj = flatten subs"
  shows "fst (removeEventListener obj element eventName callback options w) = None
    \<and> eventListeners w' obj = Some (flatten rest)
    \<and> dom_calls w' = dom_calls w @
         (case found of None \<Rightarrow> []
          | Some s \<Rightarrow> [DomRemove element eventName (sub_dispatchCallback s) options'])
    \<and> (found = None \<longrightarrow> rest = subs
          \<and> (\<forall>s \<in> set subs. \<not> matches element eventName callback s)
          \<and> (eventListeners w obj \<noteq> None \<longrightarrow> w' = w))
    \<and> (\<forall>s. found = Some s \<longrightarrow>
          (\<exists>xs ys. subs = xs @ s # ys \<and> rest = xs @ ys
             \<and> matches element eventName callback s
             \<and> (\<forall>x \<in> set xs. \<not> matches element eventName callback x)))
    \<and> eventListeners twice obj = Some (flatten (subs @ [s1, s2]))
    \<and> sub_dispatchCallback s1 \<noteq> sub_dispatchCallback s2
    \<and> (\<exists>xs s ys. subs @ [s1, s2] = xs @ s # ys
          \<and> eventListeners (snd (removeEventListener obj element eventName callback options twice))
               obj = Some (flatten (xs @ ys)))
    \<and> ((\<forall>s \<in> set subs. \<not> matches element eventName callback s) \<longrightarrow>
          eventListeners (snd (removeEventListener obj element eventName callback options twice)) obj
            = Some (flatten (subs @ [s2]))
          \<and> dom_calls (snd (removeEventListener obj element eventName callback options twice))
            = dom_calls twice @
                [DomRemove element eventName (Bound (next_fn w) obj callback) options'])"
proof -
  note r = removeEventListener_refines [where w = w and obj = obj and options = options
      and callback = callback and eventName = eventName, OF el l,
      folded w'_def options'_def found_def rest_def]
  have a: "fst (removeEventListener obj element eventName callback options w) = None"
    by (rule removeEventListener_success(1) [OF el])
  have d: "found = None \<longrightarrow> rest = subs
          \<and> (\<forall>s \<in> set subs. \<not> matches element eventName callback s)
          \<and> (eventListeners w obj \<noteq> None \<longrightarrow> w' = w)"
    using unsubscribe_first_None [of element eventName callback subs] r(3)
    by (auto simp: found_def rest_def)
  have e: "\<forall>s. found = Some s \<longrightarrow>
          (\<exists>xs ys. subs = xs @ s # ys \<and> rest = xs @ ys
             \<and> matches element eventName callback s
             \<and> (\<forall>x \<in> set xs. \<not> matches element eventName callback x))"
    using unsubscribe_first_Some [of element eventName callback subs]
    by (simp add: found_def rest_def)
  define once where "once = snd (addEventListener obj element eventName callback options w)"
  have o: "eventListeners once obj = Some (flatten (subs @ [s1]))" "next_fn once = Suc (next_fn w)"
    "PASSIVE_SUPPORTED once = PASSIVE_SUPPORTED w"
    unfolding once_def
    by (simp_all add: addEventListener_success [OF el] l flatten_Cons tuple_of_def s1_def
        options'_def addEventListener_frame)
  have t: "eventListeners twice obj = Some (flatten (subs @ [s1, s2]))"
    "PASSIVE_SUPPORTED twice = PASSIVE_SUPPORTED w"
    unfolding twice_def once_def [symmetric]
    using o by (simp_all add: addEventListener_success [OF el] the_listeners_Some
        flatten_Cons tuple_of_def s2_def options'_def addEventListener_frame)
  have m1: "matches element eventName callback s1" by (simp add: matches_def s1_def)
  note r2 = removeEventListener_refines [where w = twice and obj = obj and options = options
      and callback = callback and eventName = eventName and subs = "subs @ [s1, s2]",
      OF el the_listeners_Some [OF t(1)], unfolded t(2), folded options'_def]
  have g: "\<exists>xs s ys. subs @ [s1, s2] = xs @ s # ys
          \<and> eventListeners (snd (removeEventListener obj element eventName callback options twice))
               obj = Some (flatten (xs @ ys))"
  proof (cases "fst (unsubscribe_first element eventName callback (subs @ [s1, s2]))")
    case None
    from unsubscribe_first_None(2) [OF this] m1 show ?thesis by simp
  next
    case (Some s)
    from unsubscribe_first_Some [OF Some] obtain xs ys where
      "subs @ [s1, s2] = xs @ s # ys"
      "snd (unsubscribe_first element eventName callback (subs @ [s1, s2])) = xs @ ys"
      by blast
    with r2(1) show ?thesis by (intro exI [of _ xs] exI [of _ s] exI [of _ ys]) simp
  qed
  have h: "eventListeners (snd (removeEventListener obj element eventName callback options twice)) obj
            = Some (flatten (subs @ [s2]))
          \<and> dom_calls (snd (removeEventListener obj element eventName callback options twice))
            = dom_calls twice @
                [DomRemove element eventName (Bound (next_fn w) obj callback) options']"
    if no: "\<forall>s \<in> set subs. \<not> matches element eventName callback s"
  proof -
    have "unsubscribe_first element eventName callback (subs @ [s1, s2]) = (Some s1, subs @ [s2])"
      using m1 by (simp add: unsubscribe_first_skip [OF no])
    with r2(1,2) show ?thesis by (simp add: s1_def)
  qed
  have f: "sub_dispatchCallback s1 \<noteq> sub_dispatchCallback s2" by (simp add: s1_def s2_def)
  from a r(1,2) d e t(1) f g h show ?thesis by blast
qed

theorem removeEventListener_first_match_witness:
  "truthy (Element 1) \<and> instanceof_Element (Element 1)
   \<and> the_listeners (module_init ReadsPassive) 0 = flatten []
   \<and> eventListeners (snd (removeEventListener 0 (Element 1) (Str ''click'') (Fn 7) Undefined
        (snd (addEventListener 0 (Element 1) (Str ''click'') (Fn 7) Undefined
           (snd (addEventListener 0 (Element 1) (Str ''click'') (Fn 7) Undefined
              (module_init ReadsPassive))))))) 0
     = Some [Element 1, Str ''click'', Bound 1 0 (Fn 7), Fn 7, Undefined]
   \<and> dom_calls (snd (removeEventListener 0 (Element 1) (Str ''click'') (Fn 7) Undefined
        (snd (addEventListener 0 (Element 1) (Str ''click'') (Fn 7) Undefined
           (snd (addEventListener 0 (Element 1) (Str ''click'') (Fn 7) Undefined
              (module_init ReadsPassive)))))))
     = dom_calls (snd (addEventListener 0 (Element 1) (Str ''click'') (Fn 7) Undefined
           (snd (addEventListener 0 (Element 1) (Str ''click'') (Fn 7) Undefined
              (module_init ReadsPassive)))))
       @ [DomRemove (Element 1) (Str ''click'') (Bound 0 0 (Fn 7)) Undefined]"
proof -
  have h: "truthy (Element 1)" "instanceof_Element (Element 1)"
    "the_listeners (module_init ReadsPassive) 0 = flatten []"
    by (simp_all add: the_listeners_def module_init_def)
  have i: "next_fn (module_init ReadsPassive) = 0" "PASSIVE_SUPPORTED (module_init ReadsPassive)"
    by (simp_all add: module_init_def)
  from removeEventListener_first_match [where w = "module_init ReadsPassive" and obj = 0
      and eventName = "Str ''click''" and callback = "Fn 7" and options = Undefined, OF h]
  have "eventListeners (snd (removeEventListener 0 (Element 1) (Str ''click'') (Fn 7) Undefined
        (snd (addEventListener 0 (Element 1) (Str ''click'') (Fn 7) Undefined
           (snd (addEventListener 0 (Element 1) (Str ''click'') (Fn 7) Undefined
              (module_init ReadsPassive))))))) 0
     = Some (flatten ([] @ [\<lparr> sub_target = Element 1, sub_eventName = Str ''click'',
          sub_dispatchCallback = Bound (Suc (next_fn (module_init ReadsPassive))) 0 (Fn 7),
          sub_originalCallback = Fn 7,
          sub_options = (if \<not> PASSIVE_SUPPORTED (module_init ReadsPassive) then Undefined
                         else Undefined) \<rparr>]))"
    and "dom_calls (snd (removeEventListener 0 (Element 1) (Str ''click'') (Fn 7) Undefined
        (snd (addEventListener 0 (Element 1) (Str ''click'') (Fn 7) Undefined
           (snd (addEventListener 0 (Element 1) (Str ''click'') (Fn 7) Undefined
              (module_init ReadsPassive)))))))
     = dom_calls (snd (addEventListener 0 (Element 1) (Str ''click'') (Fn 7) Undefined
           (snd (addEventListener 0 (Element 1) (Str ''click'') (Fn 7) Undefined
              (module_init ReadsPassive)))))
       @ [DomRemove (Element 1) (Str ''click'') (Bound (next_fn (module_init ReadsPassive)) 0 (Fn 7))
            (if \<not> PASSIVE_SUPPORTED (module_init ReadsPassive) then Undefined else Undefined)]"
    by simp_all
  with h show ?thesis by (simp add: i flatten_Cons tuple_of_def)
qed

text \<open>
  C6 as stated fails: for an owner without a subscription list, \<open>removeEventListener\<close>
  matches no tuple and yet is no no-op, for it stores an empty list for the owner and
  registers its teardown closure.
\<close>

theorem removeEventListener_not_a_noop:
  "eventListeners (module_init ReadsPassive) 0 = None
   \<and> eventListeners (snd (removeEventListener 0 (Element 1) (Str ''click'') (Fn 7) Undefined
        (module_init ReadsPassive))) 0 = Some []
   \<and> disposables (module_init ReadsPassive) 0 = []
   \<and> disposables (snd (removeEventListener 0 (Element 1) (Str ''click'') (Fn 7) Undefined
        (module_init ReadsPassive))) 0 = [EventListenersDisposable 0]
   \<and> snd (removeEventListener 0 (Element 1) (Str ''click'') (Fn 7) Undefined
        (module_init ReadsPassive)) \<noteq> module_init ReadsPassive"
proof -
  define w where "w = snd (removeEventListener 0 (Element 1) (Str ''click'') (Fn 7) Undefined
        (module_init ReadsPassive))"
  have a: "eventListeners (module_init ReadsPassive) 0 = None"
    "disposables (module_init ReadsPassive) 0 = []"
    by (simp_all add: module_init_def)
  have b: "eventListeners w 0 = Some []" "disposables w 0 = [EventListenersDisposable 0]"
    by (simp_all add: w_def removeEventListener_def getEventListeners_def registerDisposable_def
        module_init_def)
  from a(1) b(1) have "w \<noteq> module_init ReadsPassive" by auto
  with a b show ?thesis unfolding w_def by simp
qed

subsection \<open>The capability test\<close>

lemma probes_frame: "dom_calls w' = dom_calls w \<Longrightarrow> probes w' = probes w"
  by (simp add: probes_def)

lemma drop_listeners_no_probe:
  "filter (\<lambda>c. c = probe) (drop_listeners l i) = []"
proof (induction l i rule: drop_listeners.induct)
  case (1 listeners i)
  show ?case
  proof (cases "i < length listeners")
    case True
    with 1 show ?thesis by (subst drop_listeners.simps) (simp add: probe_def)
  next
    case False
    then show ?thesis by (subst drop_listeners.simps) simp
  qed
qed

lemma probes_addEventListener:
  "probes (snd (addEventListener obj element eventName cb options w)) = probes w"
proof (cases "truthy element \<and> instanceof_Element element")
  case False
  then show ?thesis by (simp add: addEventListener_failure(1))
next
  case True
  then have v: "truthy element" "instanceof_Element element" by auto
  from v(2) have "element \<noteq> Window" by auto
  then show ?thesis by (simp add: probes_def addEventListener_success(3) [OF v] probe_def)
qed

lemma probes_removeEventListener:
  "probes (snd (removeEventListener obj element eventName cb options w)) = probes w"
proof (cases "truthy element \<and> instanceof_Element element")
  case False
  then show ?thesis by (simp add: removeEventListener_failure(1))
next
  case True
  then have v: "truthy element" "instanceof_Element element" by auto
  show ?thesis
    by (cases "removeEventListener_loop (the_listeners w obj) 0 element eventName cb")
       (simp_all add: probes_def removeEventListener_success(2,3) [OF v] probe_def)
qed

lemma probes_getEventListenersDisposable:
  "probes (snd (getEventListenersDisposable obj w)) = probes w"
  by (simp add: probes_def getEventListenersDisposable_def drop_listeners_no_probe
        split: option.splits)

lemma probes_run_disposable: "probes (snd (run_disposable d w)) = probes w"
proof (cases d)
  case (DebouncesDisposable obj)
  then show ?thesis by (simp add: probes_def getDebouncesDisposable_frame)
next
  case (EventListenersDisposable obj)
  then show ?thesis by (simp add: probes_getEventListenersDisposable)
qed

lemma probes_run_disposable_list: "probes (snd (run_disposable_list ds w)) = probes w"
proof (induction ds arbitrary: w)
  case Nil
  show ?case by simp
next
  case (Cons d ds)
  from Cons [of "snd (run_disposable d w)"] probes_run_disposable [of d w] show ?case
    by (cases "run_disposable d w") (auto split: option.splits)
qed

lemma probes_exec_cmd: "probes (snd (exec_cmd P c w)) = probes w"
proof (cases c)
  case (DebounceTask obj name a d)
  then show ?thesis by (simp add: probes_def debounceTask_frame)
next
  case (CancelDebounce obj name)
  then show ?thesis by (simp add: probes_def cancelDebounce_frame)
next
  case (AddEventListener obj el ev cb op)
  then show ?thesis by (simp add: probes_addEventListener)
next
  case (RemoveEventListener obj el ev cb op)
  then show ?thesis by (simp add: probes_removeEventListener)
next
  case (RunDisposables obj)
  have "probes (w\<lparr> disposables := (disposables w)(obj := []) \<rparr>) = probes w"
    by (simp add: probes_def)
  with RunDisposables show ?thesis
    by (simp add: runDisposables_def probes_run_disposable_list)
qed

lemma probes_exec_cmds: "probes (snd (exec_cmds P cs w)) = probes w"
proof (induction cs arbitrary: w)
  case Nil
  show ?case by simp
next
  case (Cons c cs)
  from Cons [of "snd (exec_cmd P c w)"] probes_exec_cmd [of P c w] show ?case
    by (cases "exec_cmd P c w") (auto split: option.splits)
qed

lemma fire_capability:
  "probes (snd (fire P tok w)) = probes w"
  "PASSIVE_SUPPORTED (snd (fire P tok w)) = PASSIVE_SUPPORTED w"
proof -
  have "probes (snd (fire P tok w)) = probes w
      \<and> PASSIVE_SUPPORTED (snd (fire P tok w)) = PASSIVE_SUPPORTED w"
  proof (cases "find (\<lambda>t. tm_token t = tok \<and> tm_due t \<le> now w) (timers w)")
    case None
    then show ?thesis by (simp add: fire_def)
  next
    case (Some t)
    show ?thesis
    proof (cases "tm_method t")
      case None
      then show ?thesis by (simp add: fire_unfold(2) [OF Some] probes_def)
    next
      case (Some c)
      obtain i obj name where c: "c = Closure i obj name" by (cases c)
      have m: "tm_method t = Some (Closure i obj name)" using Some c by simp
      define w1 where "w1 = invoke obj name (tm_args t) (delete_pending obj name (cancel (Some tok) w))"
      have w1: "probes w1 = probes w" "PASSIVE_SUPPORTED w1 = PASSIVE_SUPPORTED w"
        by (simp_all add: w1_def probes_def invoke_def)
      have d: "probes (delete_pending obj name (cancel (Some tok) w)) = probes w"
        by (simp add: probes_def)
      show ?thesis
      proof (cases "P obj name")
        case NotAFunction
        with d show ?thesis by (simp add: fire_unfold(1) [OF \<open>find _ _ = Some t\<close> m])
      next
        case (Method body)
        then have "fire P tok w = exec_cmds P (body (tm_args t)) w1"
          by (simp add: fire_unfold(1) [OF \<open>find _ _ = Some t\<close> m] w1_def)
        with w1 show ?thesis by (simp add: probes_exec_cmds exec_cmds_frame)
      qed
    qed
  qed
  then show "probes (snd (fire P tok w)) = probes w"
    and "PASSIVE_SUPPORTED (snd (fire P tok w)) = PASSIVE_SUPPORTED w" by simp_all
qed

lemma step_capability:
  "probes (step P e w) = probes w \<and> PASSIVE_SUPPORTED (step P e w) = PASSIVE_SUPPORTED w"
proof (cases e)
  case (Call c)
  then show ?thesis by (simp add: probes_exec_cmd exec_cmd_frame)
next
  case (Elapse d)
  then show ?thesis by (simp add: probes_def elapse_def)
next
  case (Fire tok)
  then show ?thesis by (simp add: fire_capability)
next
  case (Destroy obj)
  then show ?thesis by (simp add: probes_def destroy_def)
qed

lemma run_capability:
  "probes (run P es w) = probes w \<and> PASSIVE_SUPPORTED (run P es w) = PASSIVE_SUPPORTED w"
  by (induction es arbitrary: w) (simp_all add: step_capability)

text \<open>
  C7, as amended. Support for the \<open>passive\<close> option is detected when the module is
  evaluated, before any call: in every reachable state \<open>PASSIVE_SUPPORTED\<close> has the value
  detected then, and the test call on the event source has been made once (never, when
  there is no \<open>window\<close>), whatever calls have followed. When the option is unsupported,
  \<open>addEventListener\<close> with a valid element does not fail and passes and stores \<open>undefined\<close>
  in place of the options given, and \<open>removeEventListener\<close> does not fail and passes
  \<open>undefined\<close> as options whenever it unregisters a listener.
\<close>

theorem capability_detected_once:
  fixes P :: program and es :: "event list" and h :: host and v :: world
    and obj :: owner and element eventName cb options :: jsval
  defines "w \<equiv> run P es (module_init h)"
  shows "PASSIVE_SUPPORTED w = detect_PASSIVE_SUPPORTED h
    \<and> probes w = (if h = NoWindow then 0 else 1)
    \<and> (\<not> PASSIVE_SUPPORTED v \<and> truthy element \<and> instanceof_Element element \<longrightarrow>
          fst (addEventListener obj element eventName cb options v) = None
        \<and> dom_calls (snd (addEventListener obj element eventName cb options v))
            = dom_calls v @ [DomAdd element eventName (Bound (next_fn v) obj cb) Undefined]
        \<and> eventListeners (snd (addEventListener obj element eventName cb options v)) obj
            = Some (the_listeners v obj
                      @ [element, eventName, Bound (next_fn v) obj cb, cb, Undefined])
        \<and> fst (removeEventListener obj element eventName cb options v) = None
        \<and> (dom_calls (snd (removeEventListener obj element eventName cb options v)) = dom_calls v
            \<or> (\<exists>c. dom_calls (snd (removeEventListener obj element eventName cb options v))
                    = dom_calls v @ [DomRemove element eventName c Undefined])))"
proof -
  have "PASSIVE_SUPPORTED (module_init h) = detect_PASSIVE_SUPPORTED h"
    by (simp add: module_init_def)
  then have a: "PASSIVE_SUPPORTED w = detect_PASSIVE_SUPPORTED h"
    unfolding w_def by (simp add: run_capability)
  have "probes (module_init h) = (if h = NoWindow then 0 else 1)"
    by (cases h) (simp_all add: module_init_def probes_def)
  then have b: "probes w = (if h = NoWindow then 0 else 1)"
    unfolding w_def by (simp add: run_capability)
  have c: "fst (addEventListener obj element eventName cb options v) = None
        \<and> dom_calls (snd (addEventListener obj element eventName cb options v))
            = dom_calls v @ [DomAdd element eventName (Bound (next_fn v) obj cb) Undefined]
        \<and> eventListeners (snd (addEventListener obj element eventName cb options v)) obj
            = Some (the_listeners v obj
                      @ [element, eventName, Bound (next_fn v) obj cb, cb, Undefined])
        \<and> fst (removeEventListener obj element eventName cb options v) = None
        \<and> (dom_calls (snd (removeEventListener obj element eventName cb options v)) = dom_calls v
            \<or> (\<exists>c. dom_calls (snd (removeEventListener obj element eventName cb options v))
                    = dom_calls v @ [DomRemove element eventName c Undefined]))"
    if u: "\<not> PASSIVE_SUPPORTED v" and el: "truthy element" "instanceof_Element element"
  proof -
    note ad = addEventListener_success [where w = v and obj = obj and options = options
        and cb = cb and eventName = eventName, OF el]
    note rm = removeEventListener_success [where w = v and obj = obj and options = options
        and cb = cb and eventName = eventName, OF el]
    have "dom_calls (snd (removeEventListener obj element eventName cb options v)) = dom_calls v
            \<or> (\<exists>c. dom_calls (snd (removeEventListener obj element eventName cb options v))
                    = dom_calls v @ [DomRemove element eventName c Undefined])"
    proof (cases "removeEventListener_loop (the_listeners v obj) 0 element eventName cb")
      case None
      from rm(2) [OF None] show ?thesis by simp
    next
      case (Some i)
      from rm(3) [OF Some] u show ?thesis by simp
    qed
    with ad(1,2,3) rm(1) u show ?thesis by simp
  qed
  from a b c show ?thesis by blast
qed

theorem capability_detected_once_witness:
  "\<not> PASSIVE_SUPPORTED (module_init IgnoresOptions)
   \<and> truthy (Element 1) \<and> instanceof_Element (Element 1)
   \<and> PASSIVE_SUPPORTED (run app [Call (AddEventListener 0 (Element 1) (Str ''scroll'') (Fn 7)
          (Object 5))] (module_init IgnoresOptions)) = False
   \<and> probes (run app [Call (AddEventListener 0 (Element 1) (Str ''scroll'') (Fn 7)
          (Object 5))] (module_init IgnoresOptions)) = 1
   \<and> fst (addEventListener 0 (Element 1) (Str ''scroll'') (Fn 7) (Object 5)
        (module_init IgnoresOptions)) = None
   \<and> dom_calls (snd (addEventListener 0 (Element 1) (Str ''scroll'') (Fn 7) (Object 5)
        (module_init IgnoresOptions)))
     = [probe, DomAdd (Element 1) (Str ''scroll'') (Bound 0 0 (Fn 7)) Undefined]
   \<and> eventListeners (snd (addEventListener 0 (Element 1) (Str ''scroll'') (Fn 7) (Object 5)
        (module_init IgnoresOptions))) 0
     = Some [Element 1, Str ''scroll'', Bound 0 0 (Fn 7), Fn 7, Undefined]"
proof -
  have h: "\<not> PASSIVE_SUPPORTED (module_init IgnoresOptions)"
    "truthy (Element 1)" "instanceof_Element (Element 1)"
    by (simp_all add: module_init_def)
  have i: "dom_calls (module_init IgnoresOptions) = [probe]"
    "next_fn (module_init IgnoresOptions) = 0"
    "the_listeners (module_init IgnoresOptions) 0 = []"
    by (simp_all add: module_init_def the_listeners_def)
  from capability_detected_once [where P = app and h = IgnoresOptions
      and es = "[Call (AddEventListener 0 (Element 1) (Str ''scroll'') (Fn 7) (Object 5))]"
      and v = "module_init IgnoresOptions" and obj = 0 and element = "Element 1"
      and eventName = "Str ''scroll''" and cb = "Fn 7" and options = "Object 5"] h
  show ?thesis by (simp add: i del: run.simps)
qed

text \<open>
  C7 as stated fails: the detection is not made at first use. Right after the module has
  been evaluated, when no call has been made yet, the test call on the event source has
  already happened and \<open>PASSIVE_SUPPORTED\<close> is set; the first \<open>addEventListener\<close> makes no
  test.
\<close>

theorem capability_detected_before_first_use:
  "run_log app [] (module_init ReadsPassive) = []
   \<and> probes (run app [] (module_init ReadsPassive)) = 1
   \<and> PASSIVE_SUPPORTED (run app [] (module_init ReadsPassive))
   \<and> dom_calls (snd (addEventListener 0 (Element 1) (Str ''click'') (Fn 7) Undefined
        (module_init ReadsPassive)))
      = [probe, DomAdd (Element 1) (Str ''click'') (Bound 0 0 (Fn 7)) Undefined]
   \<and> probes (snd (addEventListener 0 (Element 1) (Str ''click'') (Fn 7) Undefined
        (module_init ReadsPassive))) = 1"
  by (simp add: probes_def probe_def addEventListener_def getEventListeners_def
      registerDisposable_def module_init_def Let_def)

section \<open>The registries\<close>

subsection \<open>When a blob exists\<close>

lemma registers_append [simp]:
  "registers_debounce obj (xs @ ys) = (registers_debounce obj xs \<or> registers_debounce obj ys)"
  "registers_listeners obj (xs @ ys) = (registers_listeners obj xs \<or> registers_listeners obj ys)"
  by (auto simp: registers_debounce_def registers_listeners_def)

lemma registers_Nil [simp]:
  "\<not> registers_debounce obj []" "\<not> registers_listeners obj []"
  by (simp_all add: registers_debounce_def registers_listeners_def)

lemma registers_Cons:
  "registers_debounce obj ((c, r) # xs)
     = ((\<exists>name a d. c = DebounceTask obj name a d \<and> passed r) \<or> registers_debounce obj xs)"
  "registers_listeners obj ((c, r) # xs)
     = ((\<exists>el ev cb op. (c = AddEventListener obj el ev cb op
                         \<or> c = RemoveEventListener obj el ev cb op) \<and> r = None)
        \<or> registers_listeners obj xs)"
  by (auto simp: registers_debounce_def registers_listeners_def)

lemma cancelDebounce_dom:
  "(registeredDebounces (snd (cancelDebounce obj name w)) obj' = None)
     = (registeredDebounces w obj' = None)"
  by (simp add: cancelDebounce_def Let_def delete_pending_dom split: option.splits)

lemma exec_cmd_blobs:
  "(registeredDebounces (snd (exec_cmd P c w)) obj \<noteq> None)
     = (registeredDebounces w obj \<noteq> None \<or> registers_debounce obj [(c, fst (exec_cmd P c w))])"
  "(eventListeners (snd (exec_cmd P c w)) obj \<noteq> None)
     = (eventListeners w obj \<noteq> None \<or> registers_listeners obj [(c, fst (exec_cmd P c w))])"
proof -
  have "(registeredDebounces (snd (exec_cmd P c w)) obj \<noteq> None)
     = (registeredDebounces w obj \<noteq> None \<or> registers_debounce obj [(c, fst (exec_cmd P c w))])
   \<and> (eventListeners (snd (exec_cmd P c w)) obj \<noteq> None)
     = (eventListeners w obj \<noteq> None \<or> registers_listeners obj [(c, fst (exec_cmd P c w))])"
  proof (cases c)
    case (DebounceTask ob name a d)
    show ?thesis
    proof (cases "typeof_string name \<and> typeof_function (P ob (string_of name))
        \<and> \<not> isDestroyed w ob")
      case False
      from debounceTask_failure [where P = P and obj = ob and name = name and w = w
          and a = a and d = d, OF False] show ?thesis
        by (auto simp: DebounceTask registers_debounce_def registers_listeners_def)
    next
      case True
      then obtain n where n: "name = Str n" "typeof_function (P ob n)" "\<not> isDestroyed w ob"
        by (cases name) auto
      from debounceTask_passed(1) [where P = P and obj = ob and name = "Str n" and w = w
          and a = a and d = d]
        debounceTask_passed(2) [where P = P and obj = ob and name = "Str n" and w = w
          and a = a and d = d and obj' = obj] n(2,3)
      show ?thesis
        by (auto simp: DebounceTask n(1) registers_debounce_def registers_listeners_def
            debounceTask_frame)
    qed
  next
    case (CancelDebounce ob name)
    then show ?thesis
      by (simp add: cancelDebounce_dom cancelDebounce_frame registers_debounce_def
          registers_listeners_def)
  next
    case (AddEventListener ob el ev cb op)
    show ?thesis
    proof (cases "truthy el \<and> instanceof_Element el")
      case False
      from addEventListener_failure [where obj = ob and eventName = ev and cb = cb
          and options = op and w = w, OF False] show ?thesis
        by (auto simp: AddEventListener registers_debounce_def registers_listeners_def)
    next
      case True
      then have v: "truthy el" "instanceof_Element el" by auto
      from addEventListener_success(1,2) [OF v] show ?thesis
        by (auto simp: AddEventListener addEventListener_frame registers_debounce_def
            registers_listeners_def)
    qed
  next
    case (RemoveEventListener ob el ev cb op)
    show ?thesis
    proof (cases "truthy el \<and> instanceof_Element el")
      case False
      from removeEventListener_failure [where obj = ob and eventName = ev and cb = cb
          and options = op and w = w, OF False] show ?thesis
        by (auto simp: RemoveEventListener registers_debounce_def registers_listeners_def)
    next
      case True
      then have v: "truthy el" "instanceof_Element el" by auto
      have "eventListeners (snd (removeEventListener ob el ev cb op w)) obj \<noteq> None
          = (eventListeners w obj \<noteq> None \<or> obj = ob)"
        using removeEventListener_success(2,3) [where w = w and obj = ob and options = op, OF v]
        by (cases "removeEventListener_loop (the_listeners w ob) 0 el ev cb") auto
      with removeEventListener_success(1) [OF v] show ?thesis
        by (auto simp: RemoveEventListener removeEventListener_frame registers_debounce_def
            registers_listeners_def)
    qed
  next
    case (RunDisposables ob)
    then show ?thesis
      by (simp add: runDisposables_frame registers_debounce_def registers_listeners_def)
  qed
  then show "(registeredDebounces (snd (exec_cmd P c w)) obj \<noteq> None)
     = (registeredDebounces w obj \<noteq> None \<or> registers_debounce obj [(c, fst (exec_cmd P c w))])"
    and "(eventListeners (snd (exec_cmd P c w)) obj \<noteq> None)
     = (eventListeners w obj \<noteq> None \<or> registers_listeners obj [(c, fst (exec_cmd P c w))])"
    by simp_all
qed

lemma exec_cmds_Cons:
  "exec_cmd P c w = (None, w') \<Longrightarrow> exec_cmds P (c # cs) w = exec_cmds P cs w'"
  "exec_cmd P c w = (None, w') \<Longrightarrow>
     exec_cmds_log P (c # cs) w = (c, None) # exec_cmds_log P cs w'"
  "exec_cmd P c w = (Some e, w') \<Longrightarrow> exec_cmds P (c # cs) w = (Some e, w')"
  "exec_cmd P c w = (Some e, w') \<Longrightarrow> exec_cmds_log P (c # cs) w = [(c, Some e)]"
  by simp_all

lemma exec_cmds_blobs_debounce:
  "(registeredDebounces (snd (exec_cmds P cs w)) obj \<noteq> None)
     = (registeredDebounces w obj \<noteq> None \<or> registers_debounce obj (exec_cmds_log P cs w))"
proof (induction cs arbitrary: w)
  case Nil
  show ?case by simp
next
  case (Cons c cs)
  obtain r w' where r: "exec_cmd P c w = (r, w')" by (cases "exec_cmd P c w")
  then have s: "snd (exec_cmd P c w) = w'" "fst (exec_cmd P c w) = r" by simp_all
  note b = exec_cmd_blobs(1) [of P c w obj, unfolded s registers_Cons, simplified]
  show ?case
  proof (cases r)
    case None
    have "(registeredDebounces (snd (exec_cmds P cs w')) obj \<noteq> None)
         = (registeredDebounces w obj \<noteq> None
            \<or> registers_debounce obj ((c, None) # exec_cmds_log P cs w'))"
      unfolding Cons [of w'] registers_Cons using b None by auto
    then show ?thesis by (simp only: exec_cmds_Cons(1,2) [OF r [unfolded None]])
  next
    case (Some e)
    have "(registeredDebounces w' obj \<noteq> None)
         = (registeredDebounces w obj \<noteq> None \<or> registers_debounce obj [(c, Some e)])"
      unfolding registers_Cons using b Some by simp
    then show ?thesis by (simp only: exec_cmds_Cons(3,4) [OF r [unfolded Some]] snd_conv)
  qed
qed

lemma exec_cmds_blobs_listeners:
  "(eventListeners (snd (exec_cmds P cs w)) obj \<noteq> None)
     = (eventListeners w obj \<noteq> None \<or> registers_listeners obj (exec_cmds_log P cs w))"
proof (induction cs arbitrary: w)
  case Nil
  show ?case by simp
next
  case (Cons c cs)
  obtain r w' where r: "exec_cmd P c w = (r, w')" by (cases "exec_cmd P c w")
  then have s: "snd (exec_cmd P c w) = w'" "fst (exec_cmd P c w) = r" by simp_all
  note b = exec_cmd_blobs(2) [of P c w obj, unfolded s registers_Cons, simplified]
  show ?case
  proof (cases r)
    case None
    have "(eventListeners (snd (exec_cmds P cs w')) obj \<noteq> None)
         = (eventListeners w obj \<noteq> None
            \<or> registers_listeners obj ((c, None) # exec_cmds_log P cs w'))"
      unfolding Cons [of w'] registers_Cons using b None by auto
    then show ?thesis by (simp only: exec_cmds_Cons(1,2) [OF r [unfolded None]])
  next
    case (Some e)
    have "(eventListeners w' obj \<noteq> None)
         = (eventListeners w obj \<noteq> None \<or> registers_listeners obj [(c, Some e)])"
      unfolding registers_Cons using b Some by simp
    then show ?thesis by (simp only: exec_cmds_Cons(3,4) [OF r [unfolded Some]] snd_conv)
  qed
qed

lemma fire_blobs:
  "(registeredDebounces (snd (fire P tok w)) obj \<noteq> None)
     = (registeredDebounces w obj \<noteq> None \<or> registers_debounce obj (fire_log P tok w))"
  "(eventListeners (snd (fire P tok w)) obj \<noteq> None)
     = (eventListeners w obj \<noteq> None \<or> registers_listeners obj (fire_log P tok w))"
proof -
  have "(registeredDebounces (snd (fire P tok w)) obj \<noteq> None)
     = (registeredDebounces w obj \<noteq> None \<or> registers_debounce obj (fire_log P tok w))
   \<and> (eventListeners (snd (fire P tok w)) obj \<noteq> None)
     = (eventListeners w obj \<noteq> None \<or> registers_listeners obj (fire_log P tok w))"
  proof (cases "find (\<lambda>t. tm_token t = tok \<and> tm_due t \<le> now w) (timers w)")
    case None
    then show ?thesis by (simp add: fire_def fire_log_def)
  next
    case (Some t)
    show ?thesis
    proof (cases "tm_method t")
      case None
      then have "fire P tok w = (Some TypeError, cancel (Some tok) w)" "fire_log P tok w = []"
        by (simp_all add: fire_unfold(2) [OF Some] fire_log_def Some)
      then show ?thesis by (simp only: snd_conv registers_Nil cancel_frame) simp
    next
      case (Some c)
      obtain i ob name where c: "c = Closure i ob name" by (cases c)
      have m: "tm_method t = Some (Closure i ob name)" using Some c by simp
      note found = \<open>find (\<lambda>t. tm_token t = tok \<and> tm_due t \<le> now w) (timers w) = Some t\<close>
      define w0 where "w0 = delete_pending ob name (cancel (Some tok) w)"
      define w1 where "w1 = invoke ob name (tm_args t) w0"
      have w0: "(registeredDebounces w0 obj \<noteq> None) = (registeredDebounces w obj \<noteq> None)"
        "eventListeners w0 = eventListeners w"
        by (simp_all add: w0_def delete_pending_dom)
      have w1: "(registeredDebounces w1 obj \<noteq> None) = (registeredDebounces w obj \<noteq> None)"
        "eventListeners w1 = eventListeners w"
        using w0 by (simp_all add: w1_def invoke_def)
      show ?thesis
      proof (cases "P ob name")
        case NotAFunction
        then have "fire P tok w = (Some TypeError, w0)" "fire_log P tok w = []"
          by (simp_all add: fire_unfold(1) [OF found m] w0_def fire_log_def found m)
        then show ?thesis by (simp only: w0 snd_conv registers_Nil) simp
      next
        case (Method body)
        then have f: "fire P tok w = exec_cmds P (body (tm_args t)) w1"
          "fire_log P tok w = exec_cmds_log P (body (tm_args t)) w1"
          by (simp_all add: fire_unfold(1) [OF found m] w0_def w1_def fire_log_def found m
              cancel.simps)
        show ?thesis
          by (simp only: f exec_cmds_blobs_debounce exec_cmds_blobs_listeners w1)
      qed
    qed
  qed
  then show "(registeredDebounces (snd (fire P tok w)) obj \<noteq> None)
     = (registeredDebounces w obj \<noteq> None \<or> registers_debounce obj (fire_log P tok w))"
    and "(eventListeners (snd (fire P tok w)) obj \<noteq> None)
     = (eventListeners w obj \<noteq> None \<or> registers_listeners obj (fire_log P tok w))"
    by simp_all
qed

lemma exec_cmds_log_single: "exec_cmds_log P [c] w = [(c, fst (exec_cmd P c w))]"
  by (cases "exec_cmd P c w") (auto split: option.splits)

lemma step_blobs:
  "(registeredDebounces (step P e w) obj \<noteq> None)
     = (registeredDebounces w obj \<noteq> None \<or> registers_debounce obj (step_log P e w))"
  "(eventListeners (step P e w) obj \<noteq> None)
     = (eventListeners w obj \<noteq> None \<or> registers_listeners obj (step_log P e w))"
proof -
  have "(registeredDebounces (step P e w) obj \<noteq> None)
     = (registeredDebounces w obj \<noteq> None \<or> registers_debounce obj (step_log P e w))
   \<and> (eventListeners (step P e w) obj \<noteq> None)
     = (eventListeners w obj \<noteq> None \<or> registers_listeners obj (step_log P e w))"
  proof (cases e)
    case (Call c)
    then show ?thesis
      by (simp only: step.simps step_log.simps exec_cmds_log_single exec_cmd_blobs)
  next
    case (Elapse d)
    then show ?thesis by (simp add: elapse_def)
  next
    case (Fire tok)
    then show ?thesis by (simp only: step.simps step_log.simps fire_blobs)
  next
    case (Destroy ob)
    then show ?thesis by (simp add: destroy_def)
  qed
  then show "(registeredDebounces (step P e w) obj \<noteq> None)
     = (registeredDebounces w obj \<noteq> None \<or> registers_debounce obj (step_log P e w))"
    and "(eventListeners (step P e w) obj \<noteq> None)
     = (eventListeners w obj \<noteq> None \<or> registers_listeners obj (step_log P e w))"
    by simp_all
qed

lemma run_blobs:
  "(registeredDebounces (run P es w) obj \<noteq> None)
     = (registeredDebounces w obj \<noteq> None \<or> registers_debounce obj (run_log P es w))
   \<and> (eventListeners (run P es w) obj \<noteq> None)
     = (eventListeners w obj \<noteq> None \<or> registers_listeners obj (run_log P es w))"
proof (induction es arbitrary: w)
  case Nil
  show ?case by simp
next
  case (Cons e es)
  from Cons [of "step P e w"] step_blobs [of P e w obj] show ?case
    by (simp del: step.simps step_log.simps)
qed

text \<open>
  A call of \<open>debounceTask\<close> that throws at line 96 has created the blob of the owner
  before, at lines 74 to 79.
\<close>

lemma blob_after_failed_store:
  "fst (exec_cmd app (DebounceTask 0 (Str ''size'') [] 100) (module_init ReadsPassive))
     = Some TypeError
   \<and> registers_debounce 0
        (run_log app [Call (DebounceTask 0 (Str ''size'') [] 100)] (module_init ReadsPassive))
   \<and> registeredDebounces
        (run app [Call (DebounceTask 0 (Str ''size'') [] 100)] (module_init ReadsPassive)) 0
      = Some []"
proof -
  have fn: "typeof_function (app 0 ''size'')" by (simp add: app_def)
  have i: "\<not> isDestroyed (module_init ReadsPassive) 0"
    "entry (module_init ReadsPassive) 0 ''size'' = None"
    "the_prototype (module_init ReadsPassive) 0 = Map_prototype"
    by (simp_all add: module_init_def entry_def the_blob_def the_prototype_def)
  note s = debounceTask_size [where P = app and a = "[]" and d = 100, OF fn i]
  have f: "fst (exec_cmd app (DebounceTask 0 (Str ''size'') [] 100) (module_init ReadsPassive))
      = Some TypeError"
    using s(1) by simp
  have l: "run_log app [Call (DebounceTask 0 (Str ''size'') [] 100)] (module_init ReadsPassive)
      = [(DebounceTask 0 (Str ''size'') [] 100, Some TypeError)]"
    using f by (simp only: run_log.simps step_log.simps exec_cmds_log_single) simp
  have r: "registers_debounce 0
      (run_log app [Call (DebounceTask 0 (Str ''size'') [] 100)] (module_init ReadsPassive))"
    unfolding l by (simp add: registers_debounce_def)
  have b: "registeredDebounces
        (run app [Call (DebounceTask 0 (Str ''size'') [] 100)] (module_init ReadsPassive)) 0
      = Some []"
    using s(6) by (simp add: the_blob_def module_init_def)
  from f r b show ?thesis by (intro conjI)
qed

text \<open>
  C5, as amended. In every reachable state, an owner has a debounce blob if and only if
  a call of \<open>debounceTask\<close> for that owner has passed its assertions at some time before,
  and it has a subscription list if and only if a call of \<open>addEventListener\<close> or of
  \<open>removeEventListener\<close> for that owner has passed its assertions at some time before.
  Nothing, disposal included, removes the blob of an owner.
\<close>

theorem blob_exists_iff_registered:
  "(registeredDebounces (run P es (module_init h)) obj \<noteq> None)
     = registers_debounce obj (run_log P es (module_init h))
   \<and> (eventListeners (run P es (module_init h)) obj \<noteq> None)
     = registers_listeners obj (run_log P es (module_init h))"
  using run_blobs [of P es "module_init h" obj] by (simp add: module_init_def)

theorem blob_exists_iff_registered_witness:
  "registers_debounce 0
      (run_log app [Call (DebounceTask 0 (Str ''save'') [] 100), Call (RunDisposables 0)]
         (module_init ReadsPassive))
   \<and> registeredDebounces
        (run app [Call (DebounceTask 0 (Str ''save'') [] 100), Call (RunDisposables 0)]
           (module_init ReadsPassive)) 0 \<noteq> None
   \<and> registeredDebounces
        (run app [Call (DebounceTask 0 (Str ''save'') [] 100), Call (RunDisposables 0)]
           (module_init ReadsPassive)) 1 = None"
proof -
  have ok: "typeof_function (app 0 ''save'')" "\<not> isDestroyed (module_init ReadsPassive) 0"
    by (simp_all add: app_def module_init_def)
  have f: "fst (exec_cmd app (DebounceTask 0 (Str ''save'') [] 100) (module_init ReadsPassive)) = None"
    using debounceTask_plain(1) [where P = app and a = "[]" and d = 100, OF ok plain_save(1)]
    by simp
  have l: "run_log app [Call (DebounceTask 0 (Str ''save'') [] 100), Call (RunDisposables 0)]
         (module_init ReadsPassive)
      = [(DebounceTask 0 (Str ''save'') [] 100, None),
         (RunDisposables 0,
          fst (exec_cmd app (RunDisposables 0)
                 (snd (exec_cmd app (DebounceTask 0 (Str ''save'') [] 100)
                         (module_init ReadsPassive)))))]"
    using f by (simp only: run_log.simps step_log.simps step.simps exec_cmds_log_single) simp
  have r: "registers_debounce 0
      (run_log app [Call (DebounceTask 0 (Str ''save'') [] 100), Call (RunDisposables 0)]
         (module_init ReadsPassive))"
    and n: "\<not> registers_debounce 1
      (run_log app [Call (DebounceTask 0 (Str ''save'') [] 100), Call (RunDisposables 0)]
         (module_init ReadsPassive))"
    unfolding l by (simp_all add: registers_debounce_def)
  from blob_exists_iff_registered [of app
      "[Call (DebounceTask 0 (Str ''save'') [] 100), Call (RunDisposables 0)]" ReadsPassive 0]
    blob_exists_iff_registered [of app
      "[Call (DebounceTask 0 (Str ''save'') [] 100), Call (RunDisposables 0)]" ReadsPassive 1]
    r n
  show ?thesis by (simp del: run.simps run_log.simps)
qed

text \<open>
  C5 as stated fails. A removal for an owner that has no subscriptions creates the
  subscription list of that owner, though no registration has been made. And after a
  disposal, with no registration since, the debounce blob of the owner still exists.
\<close>

theorem blob_without_registration:
  "eventListeners (module_init ReadsPassive) 0 = None
   \<and> eventListeners
        (run app [Call (RemoveEventListener 0 (Element 1) (Str ''click'') (Fn 7) Undefined)]
           (module_init ReadsPassive)) 0 = Some []
   \<and> registeredDebounces
        (run app [Call (DebounceTask 0 (Str ''save'') [] 100), Call (RunDisposables 0)]
           (module_init ReadsPassive)) 0
      = Some [(''save'', \<lparr> debouncedTask = Some (Closure 0 0 ''save''), cancelId = 0 \<rparr>)]"
proof -
  have fn: "typeof_function (app 0 ''save'')" by (simp add: app_def)
  have i: "\<not> isDestroyed (module_init ReadsPassive) 0"
    "entry (module_init ReadsPassive) 0 ''save'' = None"
    by (simp_all add: module_init_def entry_def the_blob_def)
  have tt: "the_task (module_init ReadsPassive) 0 ''save'' = Some (Closure 0 0 ''save'')"
    by (simp add: the_task_plain [OF plain_save(1)] i) (simp add: module_init_def)
  have "registeredDebounces (snd (debounceTask app 0 (Str ''save'') [] 100 (module_init ReadsPassive))) 0
      = Some [(''save'', \<lparr> debouncedTask = Some (Closure 0 0 ''save''), cancelId = 0 \<rparr>)]"
    using plain_save(1)
    by (simp add: debounceTask_fields(7) [where P = app, OF fn i(1)] tt i)
       (simp add: module_init_def the_blob_def)
  then have a: "registeredDebounces
        (run app [Call (DebounceTask 0 (Str ''save'') [] 100), Call (RunDisposables 0)]
           (module_init ReadsPassive)) 0
      = Some [(''save'', \<lparr> debouncedTask = Some (Closure 0 0 ''save''), cancelId = 0 \<rparr>)]"
    by (simp add: runDisposables_frame)
  have b: "eventListeners (module_init ReadsPassive) 0 = None
   \<and> eventListeners
        (run app [Call (RemoveEventListener 0 (Element 1) (Str ''click'') (Fn 7) Undefined)]
           (module_init ReadsPassive)) 0 = Some []"
    by (simp add: removeEventListener_def getEventListeners_def registerDisposable_def
        module_init_def Let_def)
  from a b show ?thesis by (simp del: run.simps)
qed


end
